theory Spec2Isabelle
  imports Main "HOL-Library.Char_ord" "HOL-Library.List_Lexorder" "HOL-Library.Multiset"
begin

section \<open>The Terraform lint helper: .github/scripts/terraform\_lint.py\<close>

text \<open>
  The script filters its command-line arguments down to existing \<^verbatim>\<open>.tf\<close> files under two
  directory prefixes, runs \<^verbatim>\<open>terraform fmt\<close> on each of them and \<^verbatim>\<open>tflint\<close> in each of their
  parent directories, and turns the first failure into exit status 1.

  Strings are byte lists (\<^typ>\<open>string\<close>); with \<^theory_text>\<open>Char_ord\<close> and \<^theory_text>\<open>List_Lexorder\<close> they are
  ordered byte by byte, lexicographically, which on UTF-8 is Python's order by code point.
  Paths follow \<^verbatim>\<open>pathlib\<close> in its POSIX flavour (CPython 3.12), the flavour of the runners
  the script is written for.
\<close>

subsection \<open>Strings\<close>

text \<open>\<^verbatim>\<open>s.split(sep)\<close> for a one-character separator: never empty, \<^verbatim>\<open>"".split("/") == [""]\<close>.\<close>

fun split :: "char \<Rightarrow> string \<Rightarrow> string list" where
  "split c [] = [[]]"
| "split c (x # xs) =
     (if x = c then [] # split c xs
      else (case split c xs of [] \<Rightarrow> [[x]] | y # ys \<Rightarrow> (x # y) # ys))"

text \<open>\<^verbatim>\<open>sep.join(parts)\<close>.\<close>

fun join :: "char \<Rightarrow> string list \<Rightarrow> string" where
  "join c [] = []"
| "join c [x] = x"
| "join c (x # y # ys) = x @ c # join c (y # ys)"

text \<open>\<^verbatim>\<open>s.startswith(prefix)\<close>.\<close>

definition startswith :: "string \<Rightarrow> string \<Rightarrow> bool" where
  "startswith s pre = (take (length pre) s = pre)"

text \<open>\<^verbatim>\<open>s.rfind(c)\<close>: the index of the last occurrence of \<open>c\<close>, or \<open>-1\<close>.\<close>

fun rfind :: "string \<Rightarrow> char \<Rightarrow> int" where
  "rfind [] c = - 1"
| "rfind (x # xs) c =
     (let r = rfind xs c in if 0 \<le> r then r + 1 else if x = c then 0 else - 1)"

subsection \<open>Paths\<close>

text \<open>
  A \<^verbatim>\<open>PurePosixPath\<close> is its root (\<^verbatim>\<open>""\<close>, \<^verbatim>\<open>"/"\<close> or \<^verbatim>\<open>"//"\<close>) and the list of its
  components after the root (\<^verbatim>\<open>_tail\<close>); there is no drive on POSIX.
\<close>

record path =
  root :: string
  tail :: "string list"

text \<open>
  \<^verbatim>\<open>posixpath.splitroot\<close>: no leading slash, relative; exactly two leading slashes, the
  root \<^verbatim>\<open>"//"\<close>; otherwise the root \<^verbatim>\<open>"/"\<close>.
\<close>

definition splitroot :: "string \<Rightarrow> string \<times> string" where
  "splitroot p =
     (if take 1 p \<noteq> ''/'' then ([], p)
      else if take 1 (drop 1 p) \<noteq> ''/'' \<or> take 1 (drop 2 p) = ''/'' then (''/'', drop 1 p)
      else (take 2 p, drop 2 p))"

text \<open>
  \<^verbatim>\<open>Path(s)\<close>, that is \<^verbatim>\<open>_parse_path\<close>: split what follows the root at the slashes and
  drop the empty components and the components \<^verbatim>\<open>"."\<close>. A component \<^verbatim>\<open>".."\<close> is kept.
\<close>

definition Path :: "string \<Rightarrow> path" where
  "Path s =
     (if s = [] then \<lparr>root = [], tail = []\<rparr>
      else (let (rt, rel) = splitroot s
            in \<lparr>root = rt, tail = filter (\<lambda>x. x \<noteq> [] \<and> x \<noteq> ''.'') (split CHR ''/'' rel)\<rparr>))"

text \<open>\<^verbatim>\<open>str(p)\<close>: the root followed by the components joined by slashes, \<^verbatim>\<open>"."\<close> when empty.\<close>

definition str :: "path \<Rightarrow> string" where
  "str p = (let s = root p @ join CHR ''/'' (tail p) in if s = [] then ''.'' else s)"

text \<open>\<^verbatim>\<open>p.as_posix()\<close> replaces the separator by a slash: nothing to do on POSIX.\<close>

definition as_posix :: "path \<Rightarrow> string" where
  "as_posix p = str p"

text \<open>\<^verbatim>\<open>p.name\<close>: the last component, \<^verbatim>\<open>""\<close> when there is none.\<close>

definition name :: "path \<Rightarrow> string" where
  "name p = (if tail p = [] then [] else last (tail p))"

text \<open>
  \<^verbatim>\<open>p.suffix\<close>: from the last dot of the name on, unless that dot is the first or the last
  character of the name.
\<close>

definition suffix :: "path \<Rightarrow> string" where
  "suffix p =
     (let n = name p; i = rfind n CHR ''.''
      in if 0 < i \<and> i < int (length n) - 1 then drop (nat i) n else [])"

text \<open>\<^verbatim>\<open>p.parent\<close>: the path without its last component; a path without components is its own parent.\<close>

definition parent :: "path \<Rightarrow> path" where
  "parent p = (if tail p = [] then p else p\<lparr>tail := butlast (tail p)\<rparr>)"

text \<open>
  \<^verbatim>\<open>a / b\<close>: an absolute \<open>b\<close> replaces \<open>a\<close>; a relative one is appended to it.
\<close>

definition joinpath :: "path \<Rightarrow> path \<Rightarrow> path" where
  "joinpath a b = (if root b \<noteq> [] then b else \<lparr>root = root a, tail = tail a @ tail b\<rparr>)"

text \<open>
  The key of \<^verbatim>\<open>__lt__\<close>, by which \<^verbatim>\<open>sorted\<close> compares paths: \<^verbatim>\<open>_parts_normcase\<close>, the string
  form split at the slashes (POSIX does not fold case).
\<close>

definition parts_normcase :: "path \<Rightarrow> string list" where
  "parts_normcase p = split CHR ''/'' (str p)"

subsection \<open>Exceptions and the file system\<close>

text \<open>
  The exceptions the script can meet: the \<^verbatim>\<open>RuntimeError\<close> that \<^verbatim>\<open>run_command\<close> raises, and the
  \<^verbatim>\<open>OSError\<close> of a system call that fails.
\<close>

datatype exn = RuntimeError | OSError

text \<open>
  The file system when the script starts: the paths for which \<^verbatim>\<open>stat\<close> succeeds; the paths
  for which \<^verbatim>\<open>stat\<close> fails with an error other than \<^verbatim>\<open>ENOENT\<close>, \<^verbatim>\<open>ENOTDIR\<close>, \<^verbatim>\<open>EBADF\<close> or
  \<^verbatim>\<open>ELOOP\<close> (a name that is too long, a directory without search permission); and the paths
  that are symbolic links. A path of the second set counts as failing whatever the first
  set says; for every path in neither of the two \<^verbatim>\<open>stat\<close> reports that there is no such file.
\<close>

record filesystem =
  existing :: "path set"
  unreadable :: "path set"
  symlinks :: "path set"

text \<open>
  \<^verbatim>\<open>path.exists()\<close>: \<^verbatim>\<open>True\<close> when \<^verbatim>\<open>stat\<close> succeeds, \<^verbatim>\<open>False\<close> when it fails with one of the four
  errors above; any other \<^verbatim>\<open>OSError\<close> is raised again.
\<close>

definition exists :: "filesystem \<Rightarrow> path \<Rightarrow> exn + bool" where
  "exists fs p = (if p \<in> unreadable fs then Inl OSError else Inr (p \<in> existing fs))"

subsection \<open>The filter\<close>

text \<open>
  Lines 17 to 24. The existence check comes first in the condition; when it raises, so does
  the function.
\<close>

definition is_under_terraform_roots :: "filesystem \<Rightarrow> path \<Rightarrow> exn + bool" where
  "is_under_terraform_roots fs p =
     (case exists fs p of
        Inl e \<Rightarrow> Inl e
      | Inr found \<Rightarrow>
          Inr (if \<not> found \<or> suffix p \<noteq> ''.tf'' then False
               else (let posix_path = as_posix p
                     in startswith posix_path ''initial-setup/infra/'' \<or>
                        startswith posix_path ''infra-ai-hub/'')))"

subsection \<open>The work directories\<close>

text \<open>
  Line 28: \<^verbatim>\<open>sorted({(ROOT / file_path).parent for file_path in changed_files})\<close>. The set
  keeps one copy of each directory (\<^const>\<open>remdups\<close>) and \<^verbatim>\<open>sorted\<close> orders them by the key of
  \<^verbatim>\<open>__lt__\<close>. The order in which Python walks the set is not fixed; lemma
  \<open>sort_key_enumeration\<close> below shows that it does not matter for parsed paths.
\<close>

definition get_tflint_workdirs :: "path \<Rightarrow> path list \<Rightarrow> path list" where
  "get_tflint_workdirs ROOT changed_files =
     sort_key parts_normcase (remdups (map (\<lambda>file_path. parent (joinpath ROOT file_path)) changed_files))"

subsection \<open>External processes\<close>

text \<open>
  What \<^verbatim>\<open>subprocess.run\<close> is asked to start: the argument vector and the working directory.
\<close>

record invocation =
  command :: "string list"
  cwd :: path

text \<open>
  What comes back: the return code of the process (negative when a signal killed it), or
  the \<^verbatim>\<open>OSError\<close> that \<^verbatim>\<open>subprocess.run\<close> raises when the process cannot be started. The
  script sets no timeout; a tool that never exits is outside this model.
\<close>

datatype outcome = Exited int | NotStarted

text \<open>
  The tools act on a world \<open>'w\<close> (the file system, their caches, the clock): an invocation
  yields an outcome and the world it leaves behind.
\<close>

type_synonym 'w tools = "'w \<Rightarrow> invocation \<Rightarrow> outcome \<times> 'w"

text \<open>
  The state threaded through the script: the world, and the trace of the invocations started
  so far with their outcomes (a ghost variable, which the script does not read).
\<close>

record 'w state =
  world :: 'w
  trace :: "(invocation \<times> outcome) list"

definition initial :: "'w \<Rightarrow> 'w state" where
  "initial w = \<lparr>world = w, trace = []\<rparr>"

text \<open>
  Lines 11 to 14. \<^verbatim>\<open>cwd or ROOT\<close>: a path object is always true, so only \<^verbatim>\<open>None\<close> falls
  back to the root. An \<^verbatim>\<open>OSError\<close> of \<^verbatim>\<open>subprocess.run\<close> propagates.
\<close>

definition run_command ::
  "path \<Rightarrow> 'w tools \<Rightarrow> string list \<Rightarrow> path option \<Rightarrow> 'w state \<Rightarrow> (exn + unit) \<times> 'w state" where
  "run_command ROOT exec cmd dir s =
     (let inv = \<lparr>command = cmd, cwd = (case dir of None \<Rightarrow> ROOT | Some d \<Rightarrow> d)\<rparr>;
          (out, w') = exec (world s) inv;
          s' = \<lparr>world = w', trace = trace s @ [(inv, out)]\<rparr>
      in case out of
           NotStarted \<Rightarrow> (Inl OSError, s')
         | Exited returncode \<Rightarrow>
             if returncode \<noteq> 0 then (Inl RuntimeError, s') else (Inr (), s'))"

subsection \<open>The main function\<close>

text \<open>Lines 42 to 51: the loop over the changed files; an exception leaves the loop.\<close>

fun fmt_loop :: "path \<Rightarrow> 'w tools \<Rightarrow> path list \<Rightarrow> 'w state \<Rightarrow> (exn + unit) \<times> 'w state" where
  "fmt_loop ROOT exec [] s = (Inr (), s)"
| "fmt_loop ROOT exec (terraform_file # rest) s =
     (case run_command ROOT exec
             [''terraform'', ''fmt'', ''-check'', ''-diff'', str (joinpath ROOT terraform_file)] None s of
        (Inl e, s') \<Rightarrow> (Inl e, s')
      | (Inr _, s') \<Rightarrow> fmt_loop ROOT exec rest s')"

text \<open>Lines 53 to 57: the loop over the work directories.\<close>

fun lint_loop :: "path \<Rightarrow> 'w tools \<Rightarrow> path list \<Rightarrow> 'w state \<Rightarrow> (exn + unit) \<times> 'w state" where
  "lint_loop ROOT exec [] s = (Inr (), s)"
| "lint_loop ROOT exec (terraform_workdir # rest) s =
     (case run_command ROOT exec [''tflint'', ''--init''] (Some terraform_workdir) s of
        (Inl e, s') \<Rightarrow> (Inl e, s')
      | (Inr _, s') \<Rightarrow>
          (case run_command ROOT exec [''tflint'', ''--minimum-failure-severity=error'']
                  (Some terraform_workdir) s' of
             (Inl e, s'') \<Rightarrow> (Inl e, s'')
           | (Inr _, s'') \<Rightarrow> lint_loop ROOT exec rest s''))"

text \<open>
  Lines 32 to 36, the list comprehension: the arguments are tested one after the other and
  those that pass are kept in their order; when the test of an argument raises, the
  comprehension is left with that exception and yields no list.
\<close>

fun comprehension :: "filesystem \<Rightarrow> string list \<Rightarrow> exn + path list" where
  "comprehension fs [] = Inr []"
| "comprehension fs (file_path # rest) =
     (case is_under_terraform_roots fs (Path file_path) of
        Inl e \<Rightarrow> Inl e
      | Inr keep \<Rightarrow>
          (case comprehension fs rest of
             Inl e \<Rightarrow> Inl e
           | Inr kept \<Rightarrow> Inr (if keep then Path file_path # kept else kept)))"

definition changed_files_of :: "filesystem \<Rightarrow> string list \<Rightarrow> exn + path list" where
  "changed_files_of fs argv = comprehension fs (drop 1 argv)"

text \<open>The body of the \<^verbatim>\<open>try\<close>, lines 42 to 57.\<close>

definition checks :: "path \<Rightarrow> 'w tools \<Rightarrow> path list \<Rightarrow> 'w state \<Rightarrow> (exn + unit) \<times> 'w state" where
  "checks ROOT exec changed_files s =
     (case fmt_loop ROOT exec changed_files s of
        (Inl e, s') \<Rightarrow> (Inl e, s')
      | (Inr _, s') \<Rightarrow> lint_loop ROOT exec (get_tflint_workdirs ROOT changed_files) s')"

text \<open>
  Lines 31 to 61. \<open>argv\<close> is \<^verbatim>\<open>sys.argv\<close>, the program name first. The list comprehension
  stands before the \<^verbatim>\<open>try\<close>: an exception of the filter leaves \<open>main\<close> at once. Inside the
  \<^verbatim>\<open>try\<close> only \<^verbatim>\<open>RuntimeError\<close> is caught; any other exception leaves \<open>main\<close>.
\<close>

definition main :: "path \<Rightarrow> filesystem \<Rightarrow> 'w tools \<Rightarrow> string list \<Rightarrow> 'w state \<Rightarrow> (exn + int) \<times> 'w state" where
  "main ROOT fs exec argv s =
     (case changed_files_of fs argv of
        Inl e \<Rightarrow> (Inl e, s)
      | Inr changed_files \<Rightarrow>
          if changed_files = [] then (Inr 0, s)
          else (case checks ROOT exec changed_files s of
                  (Inl RuntimeError, s') \<Rightarrow> (Inr 1, s')
                | (Inl e, s') \<Rightarrow> (Inl e, s')
                | (Inr _, s') \<Rightarrow> (Inr 0, s')))"

text \<open>
  Lines 64 and 65, \<^verbatim>\<open>sys.exit(main())\<close>: the exit status of the process is the integer that
  \<open>main\<close> returns; when an exception leaves \<open>main\<close> the interpreter prints the traceback and
  exits with status 1.
\<close>

definition exit_status :: "exn + int \<Rightarrow> int" where
  "exit_status r = (case r of Inl e \<Rightarrow> 1 | Inr n \<Rightarrow> n)"

subsection \<open>Notions used to state the properties\<close>

text \<open>
  The two kinds of invocation that the script builds: the format check of a file (lines 43
  to 51, in the root) and the two lint invocations of a work directory (lines 54 to 57).
\<close>

definition fmt_invocation :: "path \<Rightarrow> path \<Rightarrow> invocation" where
  "fmt_invocation ROOT f =
     \<lparr>command = [''terraform'', ''fmt'', ''-check'', ''-diff'', str (joinpath ROOT f)], cwd = ROOT\<rparr>"

definition lint_invocations :: "path \<Rightarrow> invocation list" where
  "lint_invocations d =
     [\<lparr>command = [''tflint'', ''--init''], cwd = d\<rparr>,
      \<lparr>command = [''tflint'', ''--minimum-failure-severity=error''], cwd = d\<rparr>]"

text \<open>
  The sequence of invocations as the specification lists it: a format check for each
  changed file, then the lint pair of each work directory.
\<close>

definition plan :: "path \<Rightarrow> path list \<Rightarrow> invocation list" where
  "plan ROOT changed_files =
     map (fmt_invocation ROOT) changed_files @
     concat (map lint_invocations (get_tflint_workdirs ROOT changed_files))"

text \<open>
  A list of invocations carried out in order from the world \<open>w\<close>, up to and including the
  first one that does not exit with code 0, each paired with its outcome.
\<close>

fun executed :: "'w tools \<Rightarrow> 'w \<Rightarrow> invocation list \<Rightarrow> (invocation \<times> outcome) list" where
  "executed exec w [] = []"
| "executed exec w (i # rest) =
     (i, fst (exec w i)) #
     (if fst (exec w i) = Exited 0 then executed exec (snd (exec w i)) rest else [])"

text \<open>The world after a list of invocations, every one of them carried out.\<close>

fun replay :: "'w tools \<Rightarrow> 'w \<Rightarrow> invocation list \<Rightarrow> 'w" where
  "replay exec w [] = w"
| "replay exec w (i # rest) = replay exec (snd (exec w i)) rest"

text \<open>What \<^const>\<open>run_command\<close> makes of an outcome, and one invocation as a step on the state.\<close>

definition raised :: "outcome \<Rightarrow> exn + unit" where
  "raised out =
     (case out of NotStarted \<Rightarrow> Inl OSError
      | Exited rc \<Rightarrow> if rc \<noteq> 0 then Inl RuntimeError else Inr ())"

definition start :: "'w tools \<Rightarrow> invocation \<Rightarrow> 'w state \<Rightarrow> (exn + unit) \<times> 'w state" where
  "start exec i s =
     (raised (fst (exec (world s) i)),
      \<lparr>world = snd (exec (world s) i), trace = trace s @ [(i, fst (exec (world s) i))]\<rparr>)"

fun run_seq :: "'w tools \<Rightarrow> invocation list \<Rightarrow> 'w state \<Rightarrow> (exn + unit) \<times> 'w state" where
  "run_seq exec [] s = (Inr (), s)"
| "run_seq exec (i # rest) s =
     (if fst (exec (world s) i) = Exited 0 then run_seq exec rest (snd (start exec i s))
      else start exec i s)"

text \<open>
  Paths as \<^const>\<open>Path\<close> produces them: one of the three roots, and components that are not
  empty, are not \<^verbatim>\<open>"."\<close> and hold no slash.
\<close>

definition valid_component :: "string \<Rightarrow> bool" where
  "valid_component c = (c \<noteq> [] \<and> c \<noteq> ''.'' \<and> CHR ''/'' \<notin> set c)"

definition valid_path :: "path \<Rightarrow> bool" where
  "valid_path p = ((root p = [] \<or> root p = ''/'' \<or> root p = ''//'') \<and> list_all valid_component (tail p))"

text \<open>
  The filter in the specification's words: the path exists, its extension is \<^verbatim>\<open>.tf\<close>, and
  its forward-slash form taken relative to the repository root starts with one of the two
  prefixes. The root-relative form of a path below the root is what follows the root; any
  other path is left as it is.
\<close>

definition relative_to_root :: "path \<Rightarrow> path \<Rightarrow> string" where
  "relative_to_root ROOT p =
     (if root p = root ROOT \<and> take (length (tail ROOT)) (tail p) = tail ROOT
      then join CHR ''/'' (drop (length (tail ROOT)) (tail p))
      else as_posix p)"

definition qualify_spec :: "path \<Rightarrow> filesystem \<Rightarrow> path \<Rightarrow> bool" where
  "qualify_spec ROOT fs p =
     (p \<in> existing fs \<and> suffix p = ''.tf'' \<and>
      (startswith (relative_to_root ROOT p) ''initial-setup/infra/'' \<or>
       startswith (relative_to_root ROOT p) ''infra-ai-hub/''))"

text \<open>
  Where an absolute name leads, as the operating system resolves it: component by
  component from the root, \<^verbatim>\<open>..\<close> going back to the directory before (and staying at the root
  when there is none), any other component going one step down. When that step reaches a
  symbolic link the walk goes on from the target of the link; targets are not part of this
  model, so the place is then not known (\<open>None\<close>).
\<close>

fun walk :: "path set \<Rightarrow> string \<Rightarrow> string list \<Rightarrow> string list \<Rightarrow> string list option" where
  "walk links r stack [] = Some (rev stack)"
| "walk links r stack (c # cs) =
     (if c = ''..'' then walk links r (tl stack) cs
      else if \<lparr>root = r, tail = rev (c # stack)\<rparr> \<in> links then None
      else walk links r (c # stack) cs)"

definition location :: "filesystem \<Rightarrow> path \<Rightarrow> path option" where
  "location fs d =
     (case walk (symlinks fs) (root d) [] (tail d) of
        None \<Rightarrow> None
      | Some t \<Rightarrow> Some \<lparr>root = root d, tail = t\<rparr>)"

text \<open>
  A directory lies inside the repository root when its name leads to a known place that
  has the components of the root (which line 8 has resolved) as an initial segment of its
  own.
\<close>

definition lies_inside :: "filesystem \<Rightarrow> path \<Rightarrow> path \<Rightarrow> bool" where
  "lies_inside fs ROOT d =
     (case location fs d of
        None \<Rightarrow> False
      | Some l \<Rightarrow> root l = root ROOT \<and> take (length (tail ROOT)) (tail l) = tail ROOT)"

text \<open>
  The invocations that a run sets out to make: those of the qualifying files, none when the
  filter raises.
\<close>

definition planned :: "path \<Rightarrow> filesystem \<Rightarrow> string list \<Rightarrow> invocation list" where
  "planned ROOT fs argv =
     (case changed_files_of fs argv of Inl e \<Rightarrow> [] | Inr changed_files \<Rightarrow> plan ROOT changed_files)"

text \<open>
  What \<^verbatim>\<open>str(ROOT / f)\<close> puts in front of a relative \<open>f\<close>: the root path and a slash.
\<close>

definition root_prefix :: "path \<Rightarrow> string" where
  "root_prefix ROOT =
     root ROOT @ (if tail ROOT = [] then [] else join CHR ''/'' (tail ROOT) @ ''/'')"

text \<open>
  A file system for the examples: the given paths exist, \<^verbatim>\<open>stat\<close> fails for no path with
  another error than a missing file, and there is no symbolic link.
\<close>

definition plain :: "path set \<Rightarrow> filesystem" where
  "plain files = \<lparr>existing = files, unreadable = {}, symlinks = {}\<rparr>"

text \<open>
  Tools for the examples; the world counts the invocations. The first passes every check;
  for the second \<^verbatim>\<open>terraform fmt -check\<close> finds every file badly formatted (exit code 3).
\<close>

definition all_pass :: "nat tools" where
  "all_pass w i = (Exited 0, Suc w)"

definition fmt_fails :: "nat tools" where
  "fmt_fails w i = (if take 1 (command i) = [''terraform''] then (Exited 3, Suc w) else (Exited 0, Suc w))"

section \<open>Properties\<close>

subsection \<open>Splitting and joining\<close>

lemma split_not_Nil [simp]: "split c s \<noteq> []"
  by (induction s) (auto split: list.splits)

lemma split_Cons_other:
  "x \<noteq> c \<Longrightarrow> split c (x # xs) = (x # hd (split c xs)) # tl (split c xs)"
  by (cases "split c xs") simp_all

lemma split_no_sep: "x \<in> set (split c s) \<Longrightarrow> c \<notin> set x"
proof (induction s arbitrary: x)
  case Nil
  then show ?case by simp
next
  case (Cons a s)
  show ?case
  proof (cases "a = c")
    case True
    with Cons show ?thesis by auto
  next
    case False
    obtain y ys where sp: "split c s = y # ys" by (cases "split c s") simp_all
    with Cons.IH have "c \<notin> set y" and "\<And>z. z \<in> set ys \<Longrightarrow> c \<notin> set z" by simp_all
    with Cons.prems False sp show ?thesis by auto
  qed
qed

lemma join_Cons: "ys \<noteq> [] \<Longrightarrow> join c (x # ys) = x @ c # join c ys"
  by (cases ys) simp_all

lemma join_append:
  "xs \<noteq> [] \<Longrightarrow> ys \<noteq> [] \<Longrightarrow> join c (xs @ ys) = join c xs @ c # join c ys"
proof (induction xs)
  case Nil
  then show ?case by simp
next
  case (Cons x xs)
  show ?case
  proof (cases "xs = []")
    case True
    with Cons.prems show ?thesis by (simp add: join_Cons)
  next
    case False
    with Cons show ?thesis by (simp add: join_Cons)
  qed
qed

lemma join_split: "join c (split c s) = s"
proof (induction s)
  case Nil
  show ?case by simp
next
  case (Cons a s)
  show ?case
  proof (cases "a = c")
    case True
    with Cons show ?thesis by (simp add: join_Cons)
  next
    case False
    obtain y ys where sp: "split c s = y # ys" by (cases "split c s") simp_all
    with Cons False show ?thesis by (cases ys) simp_all
  qed
qed

lemma split_no_sep_id: "c \<notin> set x \<Longrightarrow> split c x = [x]"
  by (induction x) auto

lemma split_append_sep: "split c (xs @ c # ys) = split c xs @ split c ys"
proof (induction xs)
  case Nil
  show ?case by simp
next
  case (Cons a xs)
  then show ?case by (cases "split c xs") (auto split: list.splits)
qed

lemma split_join:
  "cs \<noteq> [] \<Longrightarrow> \<forall>x \<in> set cs. c \<notin> set x \<Longrightarrow> split c (join c cs) = cs"
proof (induction cs)
  case Nil
  then show ?case by simp
next
  case (Cons x cs)
  show ?case
  proof (cases "cs = []")
    case True
    with Cons.prems show ?thesis by (simp add: split_no_sep_id)
  next
    case False
    with Cons show ?thesis by (simp add: join_Cons split_append_sep split_no_sep_id)
  qed
qed

lemma split_common_prefix_le:
  "split c (xs @ ys) \<le> split c (xs @ zs) \<longleftrightarrow> split c ys \<le> split c zs"
proof (induction xs)
  case Nil
  show ?case by simp
next
  case (Cons a xs)
  show ?case
  proof (cases "a = c")
    case True
    with Cons show ?thesis by simp
  next
    case False
    obtain y1 r1 where s1: "split c (xs @ ys) = y1 # r1" by (cases "split c (xs @ ys)") simp_all
    obtain y2 r2 where s2: "split c (xs @ zs) = y2 # r2" by (cases "split c (xs @ zs)") simp_all
    from False s1 s2 have "split c ((a # xs) @ ys) \<le> split c ((a # xs) @ zs) \<longleftrightarrow>
        y1 # r1 \<le> y2 # r2" by auto
    with Cons s1 s2 show ?thesis by simp
  qed
qed


subsection \<open>Parsing and printing paths\<close>

text \<open>
  \<^const>\<open>Path\<close> yields valid paths only, and parsing the string form of a valid path gives the
  path back; so the sort key, which is that string split at the slashes, tells valid paths
  apart.
\<close>

lemma splitroot_root: "fst (splitroot s) = [] \<or> fst (splitroot s) = ''/'' \<or> fst (splitroot s) = ''//''"
proof (cases s)
  case Nil
  then show ?thesis by (simp add: splitroot_def)
next
  case (Cons a s')
  then show ?thesis by (cases s') (auto simp: splitroot_def)
qed

lemma valid_Path: "valid_path (Path s)"
proof -
  have "list_all valid_component (filter (\<lambda>x. x \<noteq> [] \<and> x \<noteq> ''.'') (split CHR ''/'' r))" for r
    by (auto simp: list_all_iff valid_component_def dest: split_no_sep)
  with splitroot_root [of s] show ?thesis
    by (auto simp: valid_path_def Path_def split: prod.splits)
qed

lemma valid_component_hd: "valid_component c \<Longrightarrow> take 1 c \<noteq> ''/''"
  by (cases c) (auto simp: valid_component_def)

lemma join_valid_hd:
  "list_all valid_component cs \<Longrightarrow> take 1 (join CHR ''/'' cs) \<noteq> ''/''"
proof (cases cs)
  case Nil
  then show ?thesis by simp
next
  case (Cons c cs')
  assume "list_all valid_component cs"
  with Cons have "valid_component c" by simp
  then obtain a c' where "c = a # c'" and "a \<noteq> CHR ''/''"
    by (cases c) (auto simp: valid_component_def)
  with Cons show ?thesis by (cases cs') simp_all
qed

lemma join_valid_empty:
  "list_all valid_component cs \<Longrightarrow> join CHR ''/'' cs = [] \<longleftrightarrow> cs = []"
proof (cases cs)
  case Nil
  then show ?thesis by simp
next
  case (Cons c cs')
  assume "list_all valid_component cs"
  with Cons have "c \<noteq> []" by (simp add: valid_component_def)
  with Cons show ?thesis by (cases cs') simp_all
qed

lemma parse_join:
  assumes "list_all valid_component cs"
  shows "filter (\<lambda>x. x \<noteq> [] \<and> x \<noteq> ''.'') (split CHR ''/'' (join CHR ''/'' cs)) = cs"
proof (cases "cs = []")
  case True
  then show ?thesis by simp
next
  case False
  from assms have "\<forall>x \<in> set cs. CHR ''/'' \<notin> set x"
    by (simp add: list_all_iff valid_component_def)
  with False have "split CHR ''/'' (join CHR ''/'' cs) = cs" by (rule split_join)
  moreover from assms have "filter (\<lambda>x. x \<noteq> [] \<and> x \<noteq> ''.'') cs = cs"
    by (simp add: list_all_iff valid_component_def)
  ultimately show ?thesis by simp
qed


lemma Path_str:
  assumes "valid_path p"
  shows "Path (str p) = p"
proof -
  let ?j = "join CHR ''/'' (tail p)"
  from assms have cs: "list_all valid_component (tail p)" by (simp add: valid_path_def)
  then have hd: "take 1 ?j \<noteq> ''/''" by (rule join_valid_hd)
  from cs have parse: "filter (\<lambda>x. x \<noteq> [] \<and> x \<noteq> ''.'') (split CHR ''/'' ?j) = tail p"
    by (rule parse_join)
  from assms consider "root p = []" | "root p = ''/''" | "root p = ''//''"
    by (auto simp: valid_path_def)
  then show ?thesis
  proof cases
    case 1
    show ?thesis
    proof (cases "tail p = []")
      case True
      with 1 show ?thesis by (simp add: str_def Path_def splitroot_def)
    next
      case False
      with cs have "?j \<noteq> []" by (simp add: join_valid_empty)
      with 1 hd parse show ?thesis by (simp add: str_def Path_def splitroot_def)
    qed
  next
    case 2
    with hd parse show ?thesis by (simp add: str_def Path_def splitroot_def)
  next
    case 3
    with hd parse show ?thesis by (simp add: str_def Path_def splitroot_def)
  qed
qed

lemma parts_normcase_inj:
  assumes "valid_path p" and "valid_path q" and "parts_normcase p = parts_normcase q"
  shows "p = q"
proof -
  from assms(3) have "join CHR ''/'' (split CHR ''/'' (str p)) = join CHR ''/'' (split CHR ''/'' (str q))"
    by (simp add: parts_normcase_def)
  then have "str p = str q" by (simp add: join_split)
  then have "Path (str p) = Path (str q)" by simp
  with assms(1,2) show ?thesis by (simp add: Path_str)
qed

lemma valid_joinpath: "valid_path a \<Longrightarrow> valid_path b \<Longrightarrow> valid_path (joinpath a b)"
  by (auto simp: valid_path_def joinpath_def)

lemma valid_parent: "valid_path p \<Longrightarrow> valid_path (parent p)"
  by (auto simp: valid_path_def parent_def list_all_iff dest: in_set_butlastD)


lemma str_joinpath:
  assumes "root f = []" and "tail f \<noteq> []" and "join CHR ''/'' (tail f) \<noteq> []"
  shows "str (joinpath ROOT f) = root_prefix ROOT @ join CHR ''/'' (tail f)"
proof (cases "tail ROOT = []")
  case True
  with assms show ?thesis by (simp add: str_def joinpath_def root_prefix_def)
next
  case False
  with assms show ?thesis by (simp add: str_def joinpath_def root_prefix_def join_append)
qed

subsection \<open>What passes the filter\<close>

text \<open>The suffix is \<^verbatim>\<open>.tf\<close> exactly when the name is a non-empty stem followed by \<^verbatim>\<open>.tf\<close>.\<close>

lemma rfind_lower: "- 1 \<le> rfind s c"
  by (induction s) (simp_all add: Let_def)

lemma rfind_upper: "rfind s c < int (length s)"
  by (induction s) (simp_all add: Let_def)

lemma rfind_append:
  "rfind (xs @ ys) c = (if 0 \<le> rfind ys c then int (length xs) + rfind ys c else rfind xs c)"
  using rfind_lower [of ys c] by (induction xs) (auto simp add: Let_def)

lemma suffix_tf_iff: "suffix p = ''.tf'' \<longleftrightarrow> (\<exists>stem. stem \<noteq> [] \<and> name p = stem @ ''.tf'')"
proof
  assume a: "suffix p = ''.tf''"
  let ?n = "name p" and ?i = "rfind (name p) CHR ''.''"
  from a have c: "0 < ?i \<and> ?i < int (length ?n) - 1"
    by (auto simp: suffix_def Let_def split: if_splits)
  with a have d: "drop (nat ?i) ?n = ''.tf''" by (simp add: suffix_def Let_def)
  have "?n = take (nat ?i) ?n @ drop (nat ?i) ?n" by simp
  with d have "?n = take (nat ?i) ?n @ ''.tf''" by simp
  moreover from c have "take (nat ?i) ?n \<noteq> []" by auto
  ultimately show "\<exists>stem. stem \<noteq> [] \<and> name p = stem @ ''.tf''" by blast
next
  assume "\<exists>stem. stem \<noteq> [] \<and> name p = stem @ ''.tf''"
  then obtain stem where st: "stem \<noteq> []" "name p = stem @ ''.tf''" by blast
  have "rfind (stem @ ''.tf'') CHR ''.'' = int (length stem)"
    by (simp add: rfind_append)
  with st show "suffix p = ''.tf''" by (simp add: suffix_def Let_def)
qed

text \<open>
  A parsed path that passes the filter is relative and has at least two components: one of
  the two directory prefixes and something below it.
\<close>

lemma first_component:
  assumes "c0 \<notin> set c" and "c0 \<notin> set k" and "r = [] \<or> hd r = c0"
    and "startswith (c @ r) (k @ [c0])"
  shows "c = k \<and> r \<noteq> []"
  using assms
proof (induction k arbitrary: c)
  case Nil
  then show ?case by (cases c) (auto simp: startswith_def)
next
  case (Cons b k)
  show ?case
  proof (cases c)
    case Nil
    with Cons.prems show ?thesis by (cases r) (auto simp: startswith_def)
  next
    case (Cons a c')
    with Cons.prems have "a = b" and "startswith (c' @ r) (k @ [c0])"
      by (simp_all add: startswith_def)
    moreover from Cons Cons.prems have "c0 \<notin> set c'" and "c0 \<notin> set k" by simp_all
    ultimately show ?thesis using Cons.IH [of c'] Cons.prems(3) Cons by simp
  qed
qed

lemma join_first_component:
  assumes "CHR ''/'' \<notin> set c" and "CHR ''/'' \<notin> set k"
    and "startswith (join CHR ''/'' (c # cs)) (k @ ''/'')"
  shows "c = k \<and> cs \<noteq> []"
proof -
  let ?r = "if cs = [] then [] else CHR ''/'' # join CHR ''/'' cs"
  have j: "join CHR ''/'' (c # cs) = c @ ?r" by (cases cs) simp_all
  have "?r = [] \<or> hd ?r = CHR ''/''" by simp
  with assms have "c = k \<and> ?r \<noteq> []"
    unfolding j by (intro first_component [where ?c0.0 = "CHR ''/''"]) simp_all
  then show ?thesis by (auto split: if_splits)
qed


lemma startswith_shorter: "startswith s (a @ b) \<Longrightarrow> startswith s a"
  unfolding startswith_def
  by (metis append_eq_conv_conj length_append take_take le_add1 min_def)

lemma qualifying_components:
  assumes "valid_path p" and "is_under_terraform_roots fs p = Inr True"
  shows "root p = [] \<and>
     (\<exists>rest. rest \<noteq> [] \<and>
        (tail p = ''initial-setup'' # ''infra'' # rest \<or> tail p = ''infra-ai-hub'' # rest))"
proof -
  from assms(2) have sw: "startswith (str p) ''initial-setup/infra/'' \<or> startswith (str p) ''infra-ai-hub/''"
    by (auto simp: is_under_terraform_roots_def as_posix_def Let_def split: if_splits sum.splits)
  from assms(1) have cs: "list_all valid_component (tail p)" by (simp add: valid_path_def)
  from assms(1) consider "root p = []" | "root p = ''/''" | "root p = ''//''"
    by (auto simp: valid_path_def)
  then have rt: "root p = []"
  proof cases
    case 1
    then show ?thesis .
  next
    case 2
    with sw show ?thesis by (simp add: str_def startswith_def)
  next
    case 3
    with sw show ?thesis by (simp add: str_def startswith_def)
  qed
  from sw rt have "tail p \<noteq> []" by (auto simp: str_def startswith_def)
  then obtain c cs' where tl: "tail p = c # cs'" by (cases "tail p") simp_all
  with cs have vc: "CHR ''/'' \<notin> set c" and vcs: "list_all valid_component cs'"
    by (simp_all add: valid_component_def)
  from cs tl have "join CHR ''/'' (c # cs') \<noteq> []" by (simp add: join_valid_empty)
  with rt tl have st: "str p = join CHR ''/'' (c # cs')" by (simp add: str_def)
  from sw show ?thesis
  proof
    assume a: "startswith (str p) ''infra-ai-hub/''"
    with st have "startswith (join CHR ''/'' (c # cs')) (''infra-ai-hub'' @ ''/'')" by simp
    with vc have "c = ''infra-ai-hub'' \<and> cs' \<noteq> []"
      by (intro join_first_component) simp_all
    with rt tl show ?thesis by simp
  next
    assume a: "startswith (str p) ''initial-setup/infra/''"
    then have "startswith (str p) (''initial-setup/'' @ ''infra/'')" by simp
    then have "startswith (str p) ''initial-setup/''" by (rule startswith_shorter)
    with st have "startswith (join CHR ''/'' (c # cs')) (''initial-setup'' @ ''/'')" by simp
    with vc have c: "c = ''initial-setup'' \<and> cs' \<noteq> []"
      by (intro join_first_component) simp_all
    then obtain c2 cs2 where tl2: "cs' = c2 # cs2" by (cases cs') simp_all
    with vcs have vc2: "CHR ''/'' \<notin> set c2" by (simp add: valid_component_def)
    from a st c tl2 have "startswith (join CHR ''/'' (c2 # cs2)) (''infra'' @ ''/'')"
      by (simp add: startswith_def)
    with vc2 have "c2 = ''infra'' \<and> cs2 \<noteq> []"
      by (intro join_first_component) simp_all
    with rt tl tl2 c show ?thesis by simp
  qed
qed

subsection \<open>Sorting the work directories\<close>

text \<open>
  Whatever order the set is walked in, sorting by a key that tells its elements apart gives
  the same list.
\<close>

lemma sort_key_enumeration:
  assumes "distinct xs" and "distinct ys" and "set xs = set ys" and "inj_on k (set xs)"
  shows "sort_key k xs = sort_key k ys"
proof -
  have "sorted (map k (sort_key k xs))" and "sorted (map k (sort_key k ys))"
    by simp_all
  moreover from assms have "distinct (map k (sort_key k xs))" and "distinct (map k (sort_key k ys))"
    by (simp_all add: distinct_map)
  moreover from assms(3) have "set (map k (sort_key k xs)) = set (map k (sort_key k ys))"
    by simp
  ultimately have "map k (sort_key k xs) = map k (sort_key k ys)"
    by (simp add: sorted_distinct_set_unique)
  moreover from assms(3,4) have "inj_on k (set (sort_key k xs) \<union> set (sort_key k ys))"
    by simp
  ultimately show ?thesis by (simp add: inj_on_map_eq_map)
qed

lemma workdirs_set:
  "set (get_tflint_workdirs ROOT files) = (\<lambda>f. parent (joinpath ROOT f)) ` set files"
  by (simp add: get_tflint_workdirs_def)

lemma workdirs_distinct: "distinct (get_tflint_workdirs ROOT files)"
  by (simp add: get_tflint_workdirs_def)

lemma workdirs_sorted: "sorted (map parts_normcase (get_tflint_workdirs ROOT files))"
  by (simp add: get_tflint_workdirs_def)

lemma workdirs_same_set:
  assumes "valid_path ROOT" and "\<forall>f \<in> set xs. valid_path f" and "set xs = set ys"
  shows "get_tflint_workdirs ROOT xs = get_tflint_workdirs ROOT ys"
proof -
  let ?g = "\<lambda>f. parent (joinpath ROOT f)"
  from assms(1,2) have "\<forall>d \<in> set (remdups (map ?g xs)). valid_path d"
    by (auto intro: valid_parent valid_joinpath)
  then have "inj_on parts_normcase (set (remdups (map ?g xs)))"
    by (auto intro!: inj_onI parts_normcase_inj)
  moreover from assms(3) have "set (remdups (map ?g xs)) = set (remdups (map ?g ys))"
    by simp
  ultimately show ?thesis
    unfolding get_tflint_workdirs_def
    by (intro sort_key_enumeration) simp_all
qed


lemma example_workdirs:
  assumes "set xs = {Path ''infra-ai-hub/a/x.tf'', Path ''infra-ai-hub/a/y.tf'',
      Path ''initial-setup/infra/b/z.tf''}"
  shows "get_tflint_workdirs ROOT xs =
      [joinpath ROOT (Path ''infra-ai-hub/a''), joinpath ROOT (Path ''initial-setup/infra/b'')]"
proof -
  let ?g = "\<lambda>f. parent (joinpath ROOT f)"
  let ?A = "joinpath ROOT (Path ''infra-ai-hub/a'')"
  let ?B = "joinpath ROOT (Path ''initial-setup/infra/b'')"
  have gx: "?g (Path ''infra-ai-hub/a/x.tf'') = ?A" and gy: "?g (Path ''infra-ai-hub/a/y.tf'') = ?A"
    and gz: "?g (Path ''initial-setup/infra/b/z.tf'') = ?B"
    by (simp_all add: Path_def splitroot_def joinpath_def parent_def butlast_append)
  have sA: "str ?A = root_prefix ROOT @ ''infra-ai-hub/a''"
    by (subst str_joinpath) (simp_all add: Path_def splitroot_def)
  have sB: "str ?B = root_prefix ROOT @ ''initial-setup/infra/b''"
    by (subst str_joinpath) (simp_all add: Path_def splitroot_def)
  have le: "parts_normcase ?A \<le> parts_normcase ?B"
    unfolding parts_normcase_def sA sB split_common_prefix_le by simp
  have nle: "\<not> parts_normcase ?B \<le> parts_normcase ?A"
    unfolding parts_normcase_def sA sB split_common_prefix_le by simp
  from nle have ne: "?A \<noteq> ?B" by auto
  from nle have kne: "parts_normcase ?A \<noteq> parts_normcase ?B" by auto
  from assms have "set (remdups (map ?g xs)) = {?A, ?B}"
    by (simp add: gx gy gz)
  then have st: "set (remdups (map ?g xs)) = set [?A, ?B]" by simp
  have "sort_key parts_normcase (remdups (map ?g xs)) = sort_key parts_normcase [?A, ?B]"
  proof (rule sort_key_enumeration)
    show "distinct (remdups (map ?g xs))" by simp
    show "distinct [?A, ?B]" using ne by simp
    show "set (remdups (map ?g xs)) = set [?A, ?B]" by (rule st)
    show "inj_on parts_normcase (set (remdups (map ?g xs)))"
      unfolding st using kne by (auto simp: inj_on_def)
  qed
  also have "\<dots> = [?A, ?B]" using le by simp
  finally show ?thesis by (simp add: get_tflint_workdirs_def)
qed

subsection \<open>The run as a sequence of invocations\<close>

lemma run_command_start:
  "run_command ROOT exec cmd dir s =
     start exec \<lparr>command = cmd, cwd = (case dir of None \<Rightarrow> ROOT | Some d \<Rightarrow> d)\<rparr> s"
  by (simp add: run_command_def start_def raised_def Let_def split: prod.splits outcome.splits)

lemma raised_Inr [simp]: "raised out = Inr u \<longleftrightarrow> out = Exited 0"
  by (simp add: raised_def split: outcome.splits)

lemma raised_ok [simp]: "raised (Exited 0) = Inr ()"
  by (simp add: raised_def)

lemma raised_Inl: "raised out = Inl e \<longleftrightarrow> out \<noteq> Exited 0 \<and> e = (if out = NotStarted then OSError else RuntimeError)"
  by (auto simp add: raised_def split: outcome.splits)

lemma start_cases:
  "(case start exec i s of (Inl e, s') \<Rightarrow> (Inl e, s') | (Inr u, s') \<Rightarrow> k s') =
     (if fst (exec (world s) i) = Exited 0 then k (snd (start exec i s)) else start exec i s)"
proof (cases "raised (fst (exec (world s) i))")
  case (Inl e)
  then have "fst (exec (world s) i) \<noteq> Exited 0" by (simp add: raised_Inl)
  with Inl show ?thesis by (simp add: start_def)
next
  case (Inr u)
  then have "fst (exec (world s) i) = Exited 0" by simp
  then show ?thesis by (simp add: start_def)
qed

lemma run_seq_append:
  "run_seq exec (xs @ ys) s =
     (case run_seq exec xs s of (Inl e, s') \<Rightarrow> (Inl e, s') | (Inr _, s') \<Rightarrow> run_seq exec ys s')"
proof (induction xs arbitrary: s)
  case Nil
  show ?case by simp
next
  case (Cons i xs)
  show ?case
  proof (cases "fst (exec (world s) i) = Exited 0")
    case True
    then show ?thesis by (simp add: Cons.IH)
  next
    case False
    then obtain e where "raised (fst (exec (world s) i)) = Inl e"
      by (cases "raised (fst (exec (world s) i))") auto
    with False show ?thesis by (simp add: start_def)
  qed
qed

lemma fmt_loop_run_seq:
  "fmt_loop ROOT exec files s = run_seq exec (map (fmt_invocation ROOT) files) s"
proof (induction files arbitrary: s)
  case Nil
  show ?case by simp
next
  case (Cons f files)
  show ?case
    by (simp only: fmt_loop.simps list.map run_seq.simps run_command_start start_cases
        fmt_invocation_def [symmetric] option.case Cons.IH)
qed

lemma lint_loop_run_seq:
  "lint_loop ROOT exec dirs s = run_seq exec (concat (map lint_invocations dirs)) s"
proof (induction dirs arbitrary: s)
  case Nil
  show ?case by simp
next
  case (Cons d dirs)
  show ?case
    by (simp only: lint_loop.simps list.map concat.simps lint_invocations_def append.simps
        run_seq.simps run_command_start start_cases option.case Cons.IH)
qed

lemma checks_run_seq: "checks ROOT exec files s = run_seq exec (plan ROOT files) s"
  by (simp add: checks_def plan_def run_seq_append fmt_loop_run_seq lint_loop_run_seq
      split: prod.splits sum.splits)

lemma run_seq_trace:
  "trace (snd (run_seq exec invs s)) = trace s @ executed exec (world s) invs"
  by (induction invs arbitrary: s) (simp_all add: start_def)

lemma run_seq_world:
  "world (snd (run_seq exec invs s)) = replay exec (world s) (map fst (executed exec (world s) invs))"
  by (induction invs arbitrary: s) (simp_all add: start_def)

lemma run_seq_result:
  "fst (run_seq exec invs s) =
     (if executed exec (world s) invs = [] then Inr ()
      else raised (snd (last (executed exec (world s) invs))))"
  by (induction invs arbitrary: s) (simp_all add: start_def)

lemma executed_fst: "map fst (executed exec w invs) = take (length (executed exec w invs)) invs"
  by (induction invs arbitrary: w) simp_all

lemma executed_butlast: "e \<in> set (butlast (executed exec w invs)) \<Longrightarrow> snd e = Exited 0"
  by (induction invs arbitrary: w) (auto split: if_splits)

lemma executed_all_ok:
  "(\<forall>e \<in> set (executed exec w invs). snd e = Exited 0) \<Longrightarrow> map fst (executed exec w invs) = invs"
proof (induction invs arbitrary: w)
  case Nil
  show ?case by simp
next
  case (Cons i invs)
  from Cons.prems have ok: "fst (exec w i) = Exited 0" by simp
  with Cons.prems have "\<forall>e \<in> set (executed exec (snd (exec w i)) invs). snd e = Exited 0"
    by simp
  from Cons.IH [OF this] ok show ?case by simp
qed

lemma executed_length_le: "length (executed exec w invs) \<le> length invs"
  by (induction invs arbitrary: w) simp_all

text \<open>The filter: what it yields and when it raises.\<close>

lemma exists_raises: "exists fs p = Inl e \<longleftrightarrow> p \<in> unreadable fs \<and> e = OSError"
  by (auto simp: exists_def)

lemma is_under_raises: "is_under_terraform_roots fs p = Inl e \<longleftrightarrow> exists fs p = Inl e"
  by (simp add: is_under_terraform_roots_def split: sum.splits)

lemma comprehension_eq:
  "comprehension fs args =
     (if \<exists>a \<in> set args. exists fs (Path a) = Inl OSError then Inl OSError
      else Inr (filter (\<lambda>p. is_under_terraform_roots fs p = Inr True) (map Path args)))"
proof (induction args)
  case Nil
  show ?case by simp
next
  case (Cons a args)
  show ?case
  proof (cases "is_under_terraform_roots fs (Path a)")
    case (Inl e)
    then have ex: "exists fs (Path a) = Inl OSError" and e: "e = OSError"
      by (auto simp: is_under_raises exists_raises)
    from Inl e have "comprehension fs (a # args) = Inl OSError" by simp
    with ex show ?thesis by simp
  next
    case (Inr keep)
    then have "exists fs (Path a) \<noteq> Inl OSError" by (auto simp: is_under_raises [symmetric])
    with Inr Cons show ?thesis by simp
  qed
qed

lemma changed_files_eq:
  "changed_files_of fs argv =
     (if \<exists>a \<in> set (drop 1 argv). exists fs (Path a) = Inl OSError then Inl OSError
      else Inr (filter (\<lambda>p. is_under_terraform_roots fs p = Inr True) (map Path (drop 1 argv))))"
  by (simp add: changed_files_of_def comprehension_eq)

lemma changed_files_Inr:
  "changed_files_of fs argv = Inr cf \<longleftrightarrow>
     (\<forall>a \<in> set (drop 1 argv). exists fs (Path a) \<noteq> Inl OSError) \<and>
     cf = filter (\<lambda>p. is_under_terraform_roots fs p = Inr True) (map Path (drop 1 argv))"
  by (auto simp: changed_files_eq)

lemma changed_files_Inl:
  "changed_files_of fs argv = Inl e \<longleftrightarrow>
     e = OSError \<and> (\<exists>a \<in> set (drop 1 argv). exists fs (Path a) = Inl OSError)"
  by (auto simp: changed_files_eq)

text \<open>\<open>main\<close> in terms of the planned sequence.\<close>

lemma plan_Nil [simp]: "plan ROOT [] = []"
  by (simp add: plan_def get_tflint_workdirs_def)

lemma plan_empty_iff: "plan ROOT files = [] \<longleftrightarrow> files = []"
  by (auto simp: plan_def get_tflint_workdirs_def)

lemma planned_Inl [simp]: "changed_files_of fs argv = Inl e \<Longrightarrow> planned ROOT fs argv = []"
  by (simp add: planned_def)

lemma planned_Inr [simp]: "changed_files_of fs argv = Inr cf \<Longrightarrow> planned ROOT fs argv = plan ROOT cf"
  by (simp add: planned_def)

lemma main_filter_raises:
  "changed_files_of fs argv = Inl e \<Longrightarrow> main ROOT fs exec argv s = (Inl e, s)"
  by (simp add: main_def)

lemma main_run_seq:
  "changed_files_of fs argv = Inr cf \<Longrightarrow>
   main ROOT fs exec argv s =
     (if cf = [] then (Inr 0, s)
      else (case fst (run_seq exec (plan ROOT cf) s) of
              Inl RuntimeError \<Rightarrow> Inr 1 | Inl OSError \<Rightarrow> Inl OSError | Inr u \<Rightarrow> Inr 0,
            snd (run_seq exec (plan ROOT cf) s)))"
  by (simp add: main_def checks_run_seq split: prod.splits sum.splits exn.splits)

lemma main_trace:
  "trace (snd (main ROOT fs exec argv s)) =
     trace s @ executed exec (world s) (planned ROOT fs argv)"
  by (cases "changed_files_of fs argv")
     (simp_all add: main_filter_raises main_run_seq run_seq_trace)

lemma main_world:
  "world (snd (main ROOT fs exec argv s)) =
     replay exec (world s) (map fst (executed exec (world s) (planned ROOT fs argv)))"
  by (cases "changed_files_of fs argv")
     (simp_all add: main_filter_raises main_run_seq run_seq_world)

lemma executed_empty_iff [simp]: "executed exec w invs = [] \<longleftrightarrow> invs = []"
  by (cases invs) simp_all

lemma executed_last_decides:
  "(\<forall>e \<in> set (executed exec w invs). snd e = Exited 0) \<longleftrightarrow>
     (invs = [] \<or> snd (last (executed exec w invs)) = Exited 0)"
proof (cases "invs = []")
  case True
  then show ?thesis by simp
next
  case False
  then have ne: "executed exec w invs \<noteq> []" by simp
  then have "set (executed exec w invs) =
      insert (last (executed exec w invs)) (set (butlast (executed exec w invs)))"
    by (metis append_butlast_last_id list.simps(15) rotate1.simps(2) set_rotate1)
  with False show ?thesis by (auto dest: executed_butlast)
qed

lemma except_raised:
  "(case raised out of Inl RuntimeError \<Rightarrow> Inr 1 | Inl OSError \<Rightarrow> Inl OSError | Inr u \<Rightarrow> Inr (0::int)) =
     (if out = Exited 0 then Inr 0 else if out = NotStarted then Inl OSError else Inr 1)"
  by (cases out) (simp_all add: raised_def)

lemma main_result:
  "fst (main ROOT fs exec argv s) =
     (case changed_files_of fs argv of
        Inl e \<Rightarrow> Inl e
      | Inr cf \<Rightarrow>
          if \<forall>e \<in> set (executed exec (world s) (plan ROOT cf)). snd e = Exited 0 then Inr 0
          else if snd (last (executed exec (world s) (plan ROOT cf))) = NotStarted then Inl OSError
          else Inr 1)"
proof (cases "changed_files_of fs argv")
  case (Inl e)
  then show ?thesis by (simp add: main_filter_raises)
next
  case (Inr cf)
  show ?thesis
  proof (cases "cf = []")
    case True
    with Inr show ?thesis by (simp add: main_run_seq)
  next
    case False
    then have "plan ROOT cf \<noteq> []" by (simp add: plan_empty_iff)
    with Inr False show ?thesis
      by (simp add: main_run_seq run_seq_result executed_last_decides except_raised)
  qed
qed

lemma main_exit_status:
  "exit_status (fst (main ROOT fs exec argv s)) =
     (case changed_files_of fs argv of
        Inl e \<Rightarrow> 1
      | Inr cf \<Rightarrow>
          if \<forall>e \<in> set (executed exec (world s) (plan ROOT cf)). snd e = Exited 0 then 0 else 1)"
  by (simp add: main_result exit_status_def split: sum.splits)

lemma executed_fixed_behaviour:
  "\<forall>w w' i. fst (exec w i) = fst (exec w' i) \<Longrightarrow> executed exec w invs = executed exec w' invs"
proof (induction invs arbitrary: w w')
  case Nil
  show ?case by simp
next
  case (Cons i invs)
  from Cons.prems have "fst (exec w i) = fst (exec w' i)" by blast
  moreover from Cons.prems
  have "executed exec (snd (exec w i)) invs = executed exec (snd (exec w' i)) invs"
    by (rule Cons.IH)
  ultimately show ?case by simp
qed

lemma take_plan_split:
  "\<exists>a b. take n (plan ROOT files) = a @ b \<and>
     (\<forall>i \<in> set a. \<exists>f \<in> set files. i = fmt_invocation ROOT f) \<and>
     (\<forall>i \<in> set b. \<exists>d \<in> set (get_tflint_workdirs ROOT files). i \<in> set (lint_invocations d))"
proof (intro exI conjI)
  show "take n (plan ROOT files) =
      take n (map (fmt_invocation ROOT) files) @
      take (n - length files) (concat (map lint_invocations (get_tflint_workdirs ROOT files)))"
    by (simp add: plan_def)
  show "\<forall>i \<in> set (take n (map (fmt_invocation ROOT) files)). \<exists>f \<in> set files. i = fmt_invocation ROOT f"
    by (auto dest!: in_set_takeD)
  show "\<forall>i \<in> set (take (n - length files) (concat (map lint_invocations (get_tflint_workdirs ROOT files)))).
      \<exists>d \<in> set (get_tflint_workdirs ROOT files). i \<in> set (lint_invocations d)"
    by (auto dest!: in_set_takeD)
qed

text \<open>Where the entries of a trace come from.\<close>

lemma walk_no_link:
  assumes "''..'' \<notin> set cs"
    and "\<forall>n. \<lparr>root = r, tail = rev stack @ take n cs\<rparr> \<notin> links"
  shows "walk links r stack cs = Some (rev stack @ cs)"
  using assms
proof (induction cs arbitrary: stack)
  case Nil
  show ?case by simp
next
  case (Cons c cs)
  from Cons.prems(2) have "\<lparr>root = r, tail = rev stack @ take (Suc 0) (c # cs)\<rparr> \<notin> links"
    by blast
  then have here: "\<lparr>root = r, tail = rev (c # stack)\<rparr> \<notin> links" by simp
  have "\<forall>n. \<lparr>root = r, tail = rev (c # stack) @ take n cs\<rparr> \<notin> links"
  proof
    fix n
    from Cons.prems(2) have "\<lparr>root = r, tail = rev stack @ take (Suc n) (c # cs)\<rparr> \<notin> links"
      by blast
    then show "\<lparr>root = r, tail = rev (c # stack) @ take n cs\<rparr> \<notin> links" by simp
  qed
  moreover from Cons.prems(1) have "''..'' \<notin> set cs" by simp
  ultimately have "walk links r (c # stack) cs = Some (rev (c # stack) @ cs)"
    by (intro Cons.IH)
  with here Cons.prems(1) show ?case by auto
qed

lemma executed_subset: "e \<in> set (executed exec w invs) \<Longrightarrow> fst e \<in> set invs"
  by (induction invs arbitrary: w) (auto split: if_splits)

lemma changed_files_valid:
  "changed_files_of fs argv = Inr cf \<Longrightarrow> f \<in> set cf \<Longrightarrow>
     valid_path f \<and> is_under_terraform_roots fs f = Inr True"
  by (auto simp: changed_files_Inr valid_Path)

lemma parent_joinpath:
  "root f = [] \<Longrightarrow> tail f \<noteq> [] \<Longrightarrow>
     parent (joinpath ROOT f) = \<lparr>root = root ROOT, tail = tail ROOT @ butlast (tail f)\<rparr> \<and>
     joinpath ROOT (parent f) = \<lparr>root = root ROOT, tail = tail ROOT @ butlast (tail f)\<rparr>"
  by (simp add: parent_def joinpath_def butlast_append)

text \<open>Counting the format checks of a file.\<close>

lemma fmt_invocation_inj:
  assumes "valid_path p" and "valid_path q" and "root p = []" and "root q = []"
    and "tail p \<noteq> []" and "tail q \<noteq> []"
    and "fmt_invocation ROOT p = fmt_invocation ROOT q"
  shows "p = q"
proof -
  from assms(1,2) have vp: "list_all valid_component (tail p)" and vq: "list_all valid_component (tail q)"
    by (simp_all add: valid_path_def)
  with assms(5,6) have np: "join CHR ''/'' (tail p) \<noteq> []" and nq: "join CHR ''/'' (tail q) \<noteq> []"
    by (simp_all add: join_valid_empty)
  from assms(7) have "str (joinpath ROOT p) = str (joinpath ROOT q)"
    by (simp add: fmt_invocation_def)
  with assms(3-6) np nq have "join CHR ''/'' (tail p) = join CHR ''/'' (tail q)"
    by (simp add: str_joinpath)
  then have "split CHR ''/'' (join CHR ''/'' (tail p)) = split CHR ''/'' (join CHR ''/'' (tail q))"
    by simp
  moreover from vp have "\<forall>x \<in> set (tail p). CHR ''/'' \<notin> set x"
    by (simp add: list_all_iff valid_component_def)
  moreover from vq have "\<forall>x \<in> set (tail q). CHR ''/'' \<notin> set x"
    by (simp add: list_all_iff valid_component_def)
  ultimately have "tail p = tail q" using assms(5,6) by (simp add: split_join)
  with assms(3,4) show ?thesis by simp
qed

lemma count_list_map_inj:
  "\<forall>x \<in> set xs. f x = f p \<longrightarrow> x = p \<Longrightarrow> count_list (map f xs) (f p) = count_list xs p"
  by (induction xs) auto

lemma count_list_filter:
  "count_list (filter P xs) p = (if P p then count_list xs p else 0)"
  by (induction xs) auto

lemma count_list_take_le: "count_list (take n xs) x \<le> count_list xs x"
proof -
  have "count_list xs x = count_list (take n xs @ drop n xs) x" by simp
  also have "\<dots> = count_list (take n xs) x + count_list (drop n xs) x"
    by (rule count_list_append)
  finally show ?thesis by simp
qed

lemma executed_covers:
  assumes "\<forall>a \<in> set A. P a"
    and "\<forall>e \<in> set (executed exec w (A @ B)). P (fst e) \<longrightarrow> snd e = Exited 0"
  shows "length A \<le> length (executed exec w (A @ B))"
  using assms
proof (induction A arbitrary: w)
  case Nil
  show ?case by simp
next
  case (Cons a A)
  from Cons.prems have ok: "fst (exec w a) = Exited 0" by simp
  with Cons.prems have "\<forall>e \<in> set (executed exec (snd (exec w a)) (A @ B)). P (fst e) \<longrightarrow> snd e = Exited 0"
    by simp
  moreover from Cons.prems have "\<forall>a \<in> set A. P a" by simp
  ultimately have "length A \<le> length (executed exec (snd (exec w a)) (A @ B))"
    by (rule Cons.IH [rotated])
  with ok show ?case by simp
qed


lemma fmt_count_in_plan:
  assumes "changed_files_of fs argv = Inr cf"
    and "valid_path p" and "is_under_terraform_roots fs p = Inr True"
  shows "count_list (plan ROOT cf) (fmt_invocation ROOT p) = count_list (map Path (drop 1 argv)) p"
    and "count_list (map (fmt_invocation ROOT) cf) (fmt_invocation ROOT p) =
           count_list (map Path (drop 1 argv)) p"
    and "fmt_invocation ROOT p \<notin> set (concat (map lint_invocations (get_tflint_workdirs ROOT cf)))"
proof -
  from assms(2,3) have rp: "root p = []" and tp: "tail p \<noteq> []"
    using qualifying_components [of p fs] by auto
  have "\<forall>x \<in> set cf. fmt_invocation ROOT x = fmt_invocation ROOT p \<longrightarrow> x = p"
  proof (intro ballI impI)
    fix x
    assume x: "x \<in> set cf" and eq: "fmt_invocation ROOT x = fmt_invocation ROOT p"
    from assms(1) x have vx: "valid_path x" and qx: "is_under_terraform_roots fs x = Inr True"
      using changed_files_valid [of fs argv cf x] by simp_all
    then have "root x = []" and "tail x \<noteq> []"
      using qualifying_components [of x fs] by auto
    with vx assms(2) rp tp eq show "x = p" by (intro fmt_invocation_inj [of x p ROOT])
  qed
  then have "count_list (map (fmt_invocation ROOT) cf) (fmt_invocation ROOT p) = count_list cf p"
    by (rule count_list_map_inj)
  moreover from assms(1) have "cf = filter (\<lambda>p. is_under_terraform_roots fs p = Inr True) (map Path (drop 1 argv))"
    by (simp add: changed_files_Inr)
  ultimately show A: "count_list (map (fmt_invocation ROOT) cf) (fmt_invocation ROOT p) =
      count_list (map Path (drop 1 argv)) p"
    using assms(3) by (simp add: count_list_filter)
  show B: "fmt_invocation ROOT p \<notin> set (concat (map lint_invocations (get_tflint_workdirs ROOT cf)))"
    by (auto simp: fmt_invocation_def lint_invocations_def)
  then have "count_list (concat (map lint_invocations (get_tflint_workdirs ROOT cf))) (fmt_invocation ROOT p) = 0"
    by (simp add: count_list_0_iff)
  with A show "count_list (plan ROOT cf) (fmt_invocation ROOT p) = count_list (map Path (drop 1 argv)) p"
    by (simp add: plan_def)
qed

lemma count_list_distinct: "distinct xs \<Longrightarrow> x \<in> set xs \<Longrightarrow> count_list xs x = 1"
  by (induction xs) (auto simp: count_list_0_iff)

text \<open>The file argument of a format check, for an absolute root.\<close>

lemma fmt_target_absolute:
  assumes "root ROOT = ''/''" and "changed_files_of fs argv = Inr cf" and "f \<in> set cf"
  shows "str (joinpath ROOT f) = root_prefix ROOT @ as_posix f \<and> take 1 (str (joinpath ROOT f)) = ''/''"
proof -
  from assms(2,3) have v: "valid_path f" and q: "is_under_terraform_roots fs f = Inr True"
    using changed_files_valid [of fs argv cf f] by simp_all
  then have rt: "root f = []" and ne: "tail f \<noteq> []"
    using qualifying_components [of f fs] by auto
  from v have "list_all valid_component (tail f)" by (simp add: valid_path_def)
  with ne have j: "join CHR ''/'' (tail f) \<noteq> []" by (simp add: join_valid_empty)
  with rt have "as_posix f = join CHR ''/'' (tail f)" by (simp add: as_posix_def str_def)
  with rt ne j have "str (joinpath ROOT f) = root_prefix ROOT @ as_posix f"
    by (simp add: str_joinpath)
  moreover from assms(1) have "take 1 (root_prefix ROOT @ as_posix f) = ''/''"
    by (simp add: root_prefix_def)
  ultimately show ?thesis by simp
qed

text \<open>Unfolding these evaluates the path operations on literal strings.\<close>

lemmas path_eval = Path_def splitroot_def str_def as_posix_def name_def suffix_def startswith_def
  parent_def joinpath_def parts_normcase_def

lemmas fs_eval = exists_def is_under_terraform_roots_def plain_def

subsection \<open>Nothing to check\<close>

text \<open>
  C4 as stated: when the argument list is empty or holds only paths that do not qualify
  (because they do not exist, are no \<^verbatim>\<open>.tf\<close> files or lie outside the two roots), \<open>main\<close>
  returns 0. The path \<^verbatim>\<open>locked/notes.md\<close>, in a directory that may not be searched, does not
  exist for the script, is no \<^verbatim>\<open>.tf\<close> file and lies outside the two roots; given as the only
  argument, its existence check raises and \<open>main\<close> ends with that \<^verbatim>\<open>OSError\<close>, exit status 1.
\<close>

theorem failing_stat_is_not_a_plain_miss:
  "Path ''locked/notes.md'' \<notin> existing \<lparr>existing = {}, unreadable = {Path ''locked/notes.md''}, symlinks = {}\<rparr> \<and>
   suffix (Path ''locked/notes.md'') \<noteq> ''.tf'' \<and>
   \<not> startswith (as_posix (Path ''locked/notes.md'')) ''initial-setup/infra/'' \<and>
   \<not> startswith (as_posix (Path ''locked/notes.md'')) ''infra-ai-hub/'' \<and>
   main (Path ''/repo'') \<lparr>existing = {}, unreadable = {Path ''locked/notes.md''}, symlinks = {}\<rparr>
     all_pass [''terraform_lint.py'', ''locked/notes.md''] (initial 0) = (Inl OSError, initial 0) \<and>
   exit_status (fst (main (Path ''/repo'') \<lparr>existing = {}, unreadable = {Path ''locked/notes.md''}, symlinks = {}\<rparr>
     all_pass [''terraform_lint.py'', ''locked/notes.md''] (initial 0))) = 1"
  by code_simp

text \<open>
  C4, amended. When the argument list is empty or holds only paths whose existence check
  completes and that do not qualify, \<open>main\<close> returns 0 and leaves the state as it found it:
  the world is untouched and the trace has no new entry, so no external process was
  started. When the existence check of some argument raises, \<open>main\<close> ends with that
  \<^verbatim>\<open>OSError\<close> instead of returning 0, again with the state untouched. In short, as long as no
  argument qualifies nothing is started.
\<close>

theorem no_qualifying_file_no_invocation:
  "((\<forall>a \<in> set (drop 1 argv). is_under_terraform_roots fs (Path a) = Inr False) \<longrightarrow>
      main ROOT fs exec argv s = (Inr 0, s)) \<and>
   ((\<exists>a \<in> set (drop 1 argv). exists fs (Path a) = Inl OSError) \<longrightarrow>
      main ROOT fs exec argv s = (Inl OSError, s)) \<and>
   ((\<forall>a \<in> set (drop 1 argv). is_under_terraform_roots fs (Path a) \<noteq> Inr True) \<longrightarrow>
      snd (main ROOT fs exec argv s) = s)"
proof (intro conjI impI)
  assume a: "\<forall>a \<in> set (drop 1 argv). is_under_terraform_roots fs (Path a) = Inr False"
  then have "\<forall>a \<in> set (drop 1 argv). exists fs (Path a) \<noteq> Inl OSError"
    by (auto simp: is_under_raises [symmetric])
  with a have "changed_files_of fs argv = Inr []"
    by (simp add: changed_files_Inr filter_empty_conv)
  then show "main ROOT fs exec argv s = (Inr 0, s)" by (simp add: main_run_seq)
next
  assume "\<exists>a \<in> set (drop 1 argv). exists fs (Path a) = Inl OSError"
  then have "changed_files_of fs argv = Inl OSError" by (simp add: changed_files_Inl)
  then show "main ROOT fs exec argv s = (Inl OSError, s)" by (rule main_filter_raises)
next
  assume a: "\<forall>a \<in> set (drop 1 argv). is_under_terraform_roots fs (Path a) \<noteq> Inr True"
  show "snd (main ROOT fs exec argv s) = s"
  proof (cases "changed_files_of fs argv")
    case (Inl e)
    then show ?thesis by (simp add: main_filter_raises)
  next
    case (Inr cf)
    with a have "cf = []" by (simp add: changed_files_Inr filter_empty_conv)
    with Inr show ?thesis by (simp add: main_run_seq)
  qed
qed

theorem no_qualifying_file_no_invocation_witness:
  "is_under_terraform_roots (plain {Path ''README.md'', Path ''docs/main.tf''}) (Path ''README.md'') = Inr False \<and>
   is_under_terraform_roots (plain {Path ''README.md'', Path ''docs/main.tf''}) (Path ''infra-ai-hub/gone.tf'') = Inr False \<and>
   is_under_terraform_roots (plain {Path ''README.md'', Path ''docs/main.tf''}) (Path ''docs/main.tf'') = Inr False \<and>
   main (Path ''/repo'') (plain {Path ''README.md'', Path ''docs/main.tf''}) all_pass
     [''terraform_lint.py'', ''README.md'', ''infra-ai-hub/gone.tf'', ''docs/main.tf''] (initial 0) =
     (Inr 0, initial 0) \<and>
   main (Path ''/repo'') (plain {Path ''README.md'', Path ''docs/main.tf''}) all_pass [''terraform_lint.py'']
     (initial 0) = (Inr 0, initial 0) \<and>
   exists \<lparr>existing = {}, unreadable = {Path ''locked/notes.md''}, symlinks = {}\<rparr> (Path ''locked/notes.md'') =
     Inl OSError \<and>
   main (Path ''/repo'') \<lparr>existing = {}, unreadable = {Path ''locked/notes.md''}, symlinks = {}\<rparr> all_pass
     [''terraform_lint.py'', ''locked/notes.md''] (initial 0) = (Inl OSError, initial 0)"
proof -
  let ?F = "plain {Path ''README.md'', Path ''docs/main.tf''}"
  let ?G = "\<lparr>existing = {}, unreadable = {Path ''locked/notes.md''}, symlinks = {}\<rparr>"
  have h: "\<forall>a \<in> set (drop 1 [''terraform_lint.py'', ''README.md'', ''infra-ai-hub/gone.tf'', ''docs/main.tf'']).
      is_under_terraform_roots ?F (Path a) = Inr False"
    by (simp add: fs_eval path_eval)
  have e: "\<forall>a \<in> set (drop 1 [''terraform_lint.py'']). is_under_terraform_roots ?F (Path a) = Inr False"
    by simp
  have r: "\<exists>a \<in> set (drop 1 [''terraform_lint.py'', ''locked/notes.md'']). exists ?G (Path a) = Inl OSError"
    by (simp add: fs_eval)
  from h e r
    no_qualifying_file_no_invocation [of "[''terraform_lint.py'', ''README.md'', ''infra-ai-hub/gone.tf'', ''docs/main.tf'']"
      ?F "Path ''/repo''" all_pass "initial 0"]
    no_qualifying_file_no_invocation [of "[''terraform_lint.py'']" ?F "Path ''/repo''" all_pass "initial 0"]
    no_qualifying_file_no_invocation [of "[''terraform_lint.py'', ''locked/notes.md'']" ?G "Path ''/repo''"
      all_pass "initial 0"]
  show ?thesis by simp
qed

subsection \<open>Absolute paths\<close>

text \<open>
  C8 as stated: for every absolute path the filter returns false. For the absolute path
  \<^verbatim>\<open>/locked/infra-ai-hub/main.tf\<close>, below a directory that may not be searched, the existence
  check raises, and the filter raises with it instead of returning false.
\<close>

theorem absolute_path_can_raise:
  "startswith (as_posix (Path ''/locked/infra-ai-hub/main.tf'')) ''/'' \<and>
   is_under_terraform_roots
     \<lparr>existing = {}, unreadable = {Path ''/locked/infra-ai-hub/main.tf''}, symlinks = {}\<rparr>
     (Path ''/locked/infra-ai-hub/main.tf'') = Inl OSError"
  by code_simp

text \<open>
  C8, amended. A path whose forward-slash form starts with a slash never passes the
  filter, whatever exists on disk and wherever the file lies, because the prefix test reads
  the path as the caller wrote it and both prefixes are relative: the filter returns false
  when the existence check completes, and raises the \<^verbatim>\<open>OSError\<close> of the existence check
  otherwise.
\<close>

theorem absolute_path_never_qualifies:
  "startswith (as_posix p) ''/'' \<Longrightarrow>
     is_under_terraform_roots fs p \<noteq> Inr True \<and>
     (exists fs p = Inr found \<longrightarrow> is_under_terraform_roots fs p = Inr False) \<and>
     (exists fs p = Inl e \<longrightarrow> is_under_terraform_roots fs p = Inl e)"
  by (cases "as_posix p") (auto simp: is_under_terraform_roots_def startswith_def split: sum.splits)

theorem absolute_path_never_qualifies_witness:
  "startswith (as_posix (Path ''/repo/infra-ai-hub/main.tf'')) ''/'' \<and>
   exists (plain {Path ''/repo/infra-ai-hub/main.tf''}) (Path ''/repo/infra-ai-hub/main.tf'') = Inr True \<and>
   suffix (Path ''/repo/infra-ai-hub/main.tf'') = ''.tf'' \<and>
   is_under_terraform_roots (plain {Path ''/repo/infra-ai-hub/main.tf''}) (Path ''/repo/infra-ai-hub/main.tf'') =
     Inr False"
proof -
  have h: "startswith (as_posix (Path ''/repo/infra-ai-hub/main.tf'')) ''/''"
    by (simp add: path_eval)
  have x: "exists (plain {Path ''/repo/infra-ai-hub/main.tf''}) (Path ''/repo/infra-ai-hub/main.tf'') = Inr True"
    by (simp add: fs_eval)
  have "suffix (Path ''/repo/infra-ai-hub/main.tf'') = ''.tf''"
    by (simp add: path_eval)
  with h x absolute_path_never_qualifies [OF h, of "plain {Path ''/repo/infra-ai-hub/main.tf''}" True]
  show ?thesis by simp
qed

subsection \<open>Which paths qualify\<close>

text \<open>
  C1 as stated: a path qualifies exactly when it exists, has the extension \<^verbatim>\<open>.tf\<close> and its
  form relative to the repository root starts with one of the two prefixes, and the filter
  returns false otherwise. With the root \<^verbatim>\<open>/repo\<close>, the existing file
  \<^verbatim>\<open>/repo/infra-ai-hub/main.tf\<close> meets the three conditions (its root-relative form is
  \<^verbatim>\<open>infra-ai-hub/main.tf\<close>), and the filter rejects it. And for \<^verbatim>\<open>locked/notes.md\<close>, which meets
  none of them, the filter does not return false: its existence check raises.
\<close>

theorem root_relative_form_not_used:
  "qualify_spec (Path ''/repo'') (plain {Path ''/repo/infra-ai-hub/main.tf''}) (Path ''/repo/infra-ai-hub/main.tf'') \<and>
   is_under_terraform_roots (plain {Path ''/repo/infra-ai-hub/main.tf''}) (Path ''/repo/infra-ai-hub/main.tf'') =
     Inr False \<and>
   \<not> qualify_spec (Path ''/repo'') \<lparr>existing = {}, unreadable = {Path ''locked/notes.md''}, symlinks = {}\<rparr>
     (Path ''locked/notes.md'') \<and>
   is_under_terraform_roots \<lparr>existing = {}, unreadable = {Path ''locked/notes.md''}, symlinks = {}\<rparr>
     (Path ''locked/notes.md'') = Inl OSError"
  by (simp add: qualify_spec_def relative_to_root_def fs_eval path_eval)

text \<open>
  C1, amended. When the existence check completes, the filter returns true exactly when
  the path exists, its extension is exactly \<^verbatim>\<open>.tf\<close> (its name is a non-empty stem followed by
  \<^verbatim>\<open>.tf\<close>), and its forward-slash form as the caller supplied it, not made relative to the
  repository root, starts with \<^verbatim>\<open>initial-setup/infra/\<close> or with \<^verbatim>\<open>infra-ai-hub/\<close>; it returns false
  as soon as one of the three fails. When the existence check raises an \<^verbatim>\<open>OSError\<close> (for a
  path in the unreadable part of the file system), the filter raises it and returns nothing.
\<close>

theorem qualifies_iff:
  "(is_under_terraform_roots fs p = Inr True \<longleftrightarrow>
      exists fs p = Inr True \<and>
      (suffix p = ''.tf'' \<and> (\<exists>stem. stem \<noteq> [] \<and> name p = stem @ ''.tf'')) \<and>
      (startswith (as_posix p) ''initial-setup/infra/'' \<or> startswith (as_posix p) ''infra-ai-hub/'')) \<and>
   (is_under_terraform_roots fs p = Inr False \<longleftrightarrow>
      (exists fs p = Inr True \<or> exists fs p = Inr False) \<and>
      \<not> (exists fs p = Inr True \<and> suffix p = ''.tf'' \<and>
         (startswith (as_posix p) ''initial-setup/infra/'' \<or> startswith (as_posix p) ''infra-ai-hub/''))) \<and>
   (is_under_terraform_roots fs p = Inl e \<longleftrightarrow> exists fs p = Inl e) \<and>
   (exists fs p = Inl e \<longleftrightarrow> p \<in> unreadable fs \<and> e = OSError) \<and>
   (exists fs p = Inr True \<longleftrightarrow> p \<in> existing fs \<and> p \<notin> unreadable fs)"
proof -
  have "suffix p = ''.tf'' \<longleftrightarrow> suffix p = ''.tf'' \<and> (\<exists>stem. stem \<noteq> [] \<and> name p = stem @ ''.tf'')"
    using suffix_tf_iff [of p] by blast
  then have "is_under_terraform_roots fs p = Inr True \<longleftrightarrow>
      exists fs p = Inr True \<and>
      (suffix p = ''.tf'' \<and> (\<exists>stem. stem \<noteq> [] \<and> name p = stem @ ''.tf'')) \<and>
      (startswith (as_posix p) ''initial-setup/infra/'' \<or> startswith (as_posix p) ''infra-ai-hub/'')"
    unfolding is_under_terraform_roots_def Let_def by (auto split: sum.splits)
  moreover have "is_under_terraform_roots fs p = Inr False \<longleftrightarrow>
      (exists fs p = Inr True \<or> exists fs p = Inr False) \<and>
      \<not> (exists fs p = Inr True \<and> suffix p = ''.tf'' \<and>
         (startswith (as_posix p) ''initial-setup/infra/'' \<or> startswith (as_posix p) ''infra-ai-hub/''))"
    unfolding is_under_terraform_roots_def Let_def by (auto split: sum.splits)
  moreover have "is_under_terraform_roots fs p = Inl e \<longleftrightarrow> exists fs p = Inl e"
    by (rule is_under_raises)
  moreover have "exists fs p = Inl e \<longleftrightarrow> p \<in> unreadable fs \<and> e = OSError"
    by (rule exists_raises)
  moreover have "exists fs p = Inr True \<longleftrightarrow> p \<in> existing fs \<and> p \<notin> unreadable fs"
    by (auto simp: exists_def)
  ultimately show ?thesis by blast
qed

theorem qualifies_iff_witness:
  "exists (plain {Path ''infra-ai-hub/main.tf''}) (Path ''infra-ai-hub/main.tf'') = Inr True \<and>
   suffix (Path ''infra-ai-hub/main.tf'') = ''.tf'' \<and>
   name (Path ''infra-ai-hub/main.tf'') = ''main'' @ ''.tf'' \<and>
   startswith (as_posix (Path ''infra-ai-hub/main.tf'')) ''infra-ai-hub/'' \<and>
   is_under_terraform_roots (plain {Path ''infra-ai-hub/main.tf''}) (Path ''infra-ai-hub/main.tf'') = Inr True \<and>
   is_under_terraform_roots (plain {Path ''infra-ai-hub/main.tf''}) (Path ''infra-ai-hub/other.tf'') = Inr False \<and>
   is_under_terraform_roots (plain {Path ''infra-ai-hub/notes.md''}) (Path ''infra-ai-hub/notes.md'') = Inr False \<and>
   is_under_terraform_roots (plain {Path ''modules/main.tf''}) (Path ''modules/main.tf'') = Inr False \<and>
   is_under_terraform_roots \<lparr>existing = {}, unreadable = {Path ''infra-ai-hub/locked/main.tf''}, symlinks = {}\<rparr>
     (Path ''infra-ai-hub/locked/main.tf'') = Inl OSError"
proof -
  let ?M = "Path ''infra-ai-hub/main.tf''"
  let ?G = "\<lparr>existing = {}, unreadable = {Path ''infra-ai-hub/locked/main.tf''}, symlinks = {}\<rparr>"
  have a: "exists (plain {?M}) ?M = Inr True" by (simp add: fs_eval)
  have b: "suffix ?M = ''.tf''" by (simp add: path_eval)
  have c: "name ?M = ''main'' @ ''.tf''" by (simp add: path_eval)
  then have c': "\<exists>stem. stem \<noteq> [] \<and> name ?M = stem @ ''.tf''" by blast
  have d: "startswith (as_posix ?M) ''infra-ai-hub/''" by (simp add: path_eval)
  have e: "exists (plain {?M}) (Path ''infra-ai-hub/other.tf'') = Inr False"
    by (simp add: fs_eval path_eval)
  have f: "exists (plain {Path ''infra-ai-hub/notes.md''}) (Path ''infra-ai-hub/notes.md'') = Inr True"
    "suffix (Path ''infra-ai-hub/notes.md'') \<noteq> ''.tf''"
    by (simp_all add: fs_eval path_eval)
  have g: "exists (plain {Path ''modules/main.tf''}) (Path ''modules/main.tf'') = Inr True"
    "\<not> startswith (as_posix (Path ''modules/main.tf'')) ''initial-setup/infra/'' \<and>
      \<not> startswith (as_posix (Path ''modules/main.tf'')) ''infra-ai-hub/''"
    by (simp_all add: fs_eval path_eval)
  have h: "exists ?G (Path ''infra-ai-hub/locked/main.tf'') = Inl OSError" by (simp add: fs_eval)
  from a b c' d qualifies_iff [of "plain {?M}" ?M]
  have "is_under_terraform_roots (plain {?M}) ?M = Inr True" by blast
  moreover from e qualifies_iff [of "plain {?M}" "Path ''infra-ai-hub/other.tf''"]
  have "is_under_terraform_roots (plain {?M}) (Path ''infra-ai-hub/other.tf'') = Inr False"
    by (metis Inr_inject)
  moreover from f qualifies_iff [of "plain {Path ''infra-ai-hub/notes.md''}" "Path ''infra-ai-hub/notes.md''"]
  have "is_under_terraform_roots (plain {Path ''infra-ai-hub/notes.md''}) (Path ''infra-ai-hub/notes.md'') = Inr False"
    by blast
  moreover from g qualifies_iff [of "plain {Path ''modules/main.tf''}" "Path ''modules/main.tf''"]
  have "is_under_terraform_roots (plain {Path ''modules/main.tf''}) (Path ''modules/main.tf'') = Inr False"
    by blast
  moreover from h qualifies_iff [of ?G "Path ''infra-ai-hub/locked/main.tf''" OSError]
  have "is_under_terraform_roots ?G (Path ''infra-ai-hub/locked/main.tf'') = Inl OSError"
    by blast
  ultimately show ?thesis using a b c d by blast
qed

subsection \<open>Exit codes\<close>

text \<open>
  C2 as stated: the exit code is 0 exactly when there is no qualifying file or every
  external invocation succeeded. With \<^verbatim>\<open>locked/notes.md\<close> as the only argument no file
  qualifies and no invocation is made, let alone fails; yet the existence check raises
  before the \<^verbatim>\<open>try\<close>, the \<^verbatim>\<open>OSError\<close> leaves \<open>main\<close> and the exit status is 1.
\<close>

theorem exit_code_one_without_invocation:
  "is_under_terraform_roots \<lparr>existing = {}, unreadable = {Path ''locked/notes.md''}, symlinks = {}\<rparr>
     (Path ''locked/notes.md'') \<noteq> Inr True \<and>
   trace (snd (main (Path ''/repo'') \<lparr>existing = {}, unreadable = {Path ''locked/notes.md''}, symlinks = {}\<rparr>
     all_pass [''terraform_lint.py'', ''locked/notes.md''] (initial 0))) = [] \<and>
   exit_status (fst (main (Path ''/repo'') \<lparr>existing = {}, unreadable = {Path ''locked/notes.md''}, symlinks = {}\<rparr>
     all_pass [''terraform_lint.py'', ''locked/notes.md''] (initial 0))) = 1"
  by code_simp

text \<open>
  C2, amended. The exit status of the script is 0 exactly when the existence check of
  every argument completes and either no argument qualifies or every invocation of the plan
  was carried out and exited with code 0. It is 1 exactly when the existence check of some
  argument raises an \<^verbatim>\<open>OSError\<close> (then nothing is started) or some invocation that was started
  did not exit with code 0, be it a non-zero return code (a failed check, or a negative code
  after a signal) or a process that could not be started. It is never anything else. For a
  non-zero return code \<open>main\<close> returns 1 (lemma \<open>main_result\<close>); an \<^verbatim>\<open>OSError\<close>, of the filter or
  of a process that cannot be started, is not caught and leaves \<open>main\<close>, and the interpreter
  exits with status 1.
\<close>

theorem exit_code_zero_iff_all_succeeded:
  "(exit_status (fst (main ROOT fs exec argv (initial w))) = 0 \<longleftrightarrow>
      (\<forall>a \<in> set (drop 1 argv). exists fs (Path a) \<noteq> Inl OSError) \<and>
      (filter (\<lambda>p. is_under_terraform_roots fs p = Inr True) (map Path (drop 1 argv)) = [] \<or>
       map fst (trace (snd (main ROOT fs exec argv (initial w)))) =
         plan ROOT (filter (\<lambda>p. is_under_terraform_roots fs p = Inr True) (map Path (drop 1 argv))) \<and>
       (\<forall>e \<in> set (trace (snd (main ROOT fs exec argv (initial w)))). snd e = Exited 0))) \<and>
   (exit_status (fst (main ROOT fs exec argv (initial w))) = 1 \<longleftrightarrow>
      (\<exists>a \<in> set (drop 1 argv). exists fs (Path a) = Inl OSError) \<or>
      (\<exists>e \<in> set (trace (snd (main ROOT fs exec argv (initial w)))). snd e \<noteq> Exited 0)) \<and>
   (exit_status (fst (main ROOT fs exec argv (initial w))) = 0 \<or>
    exit_status (fst (main ROOT fs exec argv (initial w))) = 1) \<and>
   ((\<exists>a \<in> set (drop 1 argv). exists fs (Path a) = Inl OSError) \<longrightarrow>
      main ROOT fs exec argv (initial w) = (Inl OSError, initial w))"
proof (cases "changed_files_of fs argv")
  case (Inl e)
  then have r: "\<exists>a \<in> set (drop 1 argv). exists fs (Path a) = Inl OSError" and e: "e = OSError"
    by (simp_all add: changed_files_Inl)
  from Inl e have m: "main ROOT fs exec argv (initial w) = (Inl OSError, initial w)"
    by (simp add: main_filter_raises)
  from r have "\<not> (\<forall>a \<in> set (drop 1 argv). exists fs (Path a) \<noteq> Inl OSError)" by blast
  with r show ?thesis unfolding m by (simp add: exit_status_def initial_def)
next
  case (Inr cf)
  then have nr: "\<forall>a \<in> set (drop 1 argv). exists fs (Path a) \<noteq> Inl OSError"
    and cf: "filter (\<lambda>p. is_under_terraform_roots fs p = Inr True) (map Path (drop 1 argv)) = cf"
    by (simp_all add: changed_files_Inr)
  let ?es = "executed exec w (plan ROOT cf)"
  from Inr have tr: "trace (snd (main ROOT fs exec argv (initial w))) = ?es"
    by (simp add: main_trace initial_def)
  from Inr have st: "exit_status (fst (main ROOT fs exec argv (initial w))) =
      (if \<forall>e \<in> set ?es. snd e = Exited 0 then 0 else 1)"
    by (simp add: main_exit_status initial_def)
  have full: "(\<forall>e \<in> set ?es. snd e = Exited 0) \<Longrightarrow> map fst ?es = plan ROOT cf"
    by (rule executed_all_ok)
  have "cf = [] \<Longrightarrow> ?es = []" by simp
  with nr full show ?thesis unfolding tr st cf by auto
qed

theorem exit_code_zero_iff_all_succeeded_witness:
  "exit_status (fst (main (Path ''/repo'') (plain {Path ''infra-ai-hub/a/x.tf''}) all_pass
      [''terraform_lint.py'', ''infra-ai-hub/a/x.tf'', ''README.md''] (initial 0))) = 0 \<and>
   exit_status (fst (main (Path ''/repo'') (plain {Path ''infra-ai-hub/a/x.tf''}) fmt_fails
      [''terraform_lint.py'', ''infra-ai-hub/a/x.tf'', ''README.md''] (initial 0))) = 1 \<and>
   main (Path ''/repo'') \<lparr>existing = {Path ''infra-ai-hub/a/x.tf''}, unreadable = {Path ''locked/notes.md''},
      symlinks = {}\<rparr> all_pass [''terraform_lint.py'', ''infra-ai-hub/a/x.tf'', ''locked/notes.md''] (initial 0) =
     (Inl OSError, initial 0)"
proof -
  let ?R = "Path ''/repo''" and ?F = "plain {Path ''infra-ai-hub/a/x.tf''}"
  let ?A = "[''terraform_lint.py'', ''infra-ai-hub/a/x.tf'', ''README.md'']"
  let ?G = "\<lparr>existing = {Path ''infra-ai-hub/a/x.tf''}, unreadable = {Path ''locked/notes.md''}, symlinks = {}\<rparr>"
  let ?B = "[''terraform_lint.py'', ''infra-ai-hub/a/x.tf'', ''locked/notes.md'']"
  have nr: "\<forall>a \<in> set (drop 1 ?A). exists ?F (Path a) \<noteq> Inl OSError"
    by (simp add: fs_eval)
  have ok: "map fst (trace (snd (main ?R ?F all_pass ?A (initial 0)))) =
        plan ?R (filter (\<lambda>p. is_under_terraform_roots ?F p = Inr True) (map Path (drop 1 ?A))) \<and>
      (\<forall>e \<in> set (trace (snd (main ?R ?F all_pass ?A (initial 0)))). snd e = Exited 0)"
    by code_simp
  have bad: "\<exists>e \<in> set (trace (snd (main ?R ?F fmt_fails ?A (initial 0)))). snd e \<noteq> Exited 0"
    by code_simp
  have r: "\<exists>a \<in> set (drop 1 ?B). exists ?G (Path a) = Inl OSError"
    by (simp add: fs_eval)
  from nr ok exit_code_zero_iff_all_succeeded [of ?R ?F all_pass ?A 0]
  have "exit_status (fst (main ?R ?F all_pass ?A (initial 0))) = 0" by blast
  moreover from bad exit_code_zero_iff_all_succeeded [of ?R ?F fmt_fails ?A 0]
  have "exit_status (fst (main ?R ?F fmt_fails ?A (initial 0))) = 1" by blast
  moreover from r exit_code_zero_iff_all_succeeded [of ?R ?G all_pass ?B 0]
  have "main ?R ?G all_pass ?B (initial 0) = (Inl OSError, initial 0)" by blast
  ultimately show ?thesis by simp
qed

subsection \<open>The first failure ends the run\<close>

text \<open>
  C6. In the trace of a run every invocation but the last exited with code 0, so an
  invocation that fails is the last one started; when the trace holds a failure the exit
  status is 1 and \<open>main\<close> does not return 0; and the world at the end is the world that the
  started invocations produced one after the other: nothing is undone.
\<close>

theorem first_failure_ends_run:
  "(\<forall>e \<in> set (butlast (trace (snd (main ROOT fs exec argv (initial w))))). snd e = Exited 0) \<and>
   ((\<exists>e \<in> set (trace (snd (main ROOT fs exec argv (initial w)))). snd e \<noteq> Exited 0) \<longrightarrow>
      exit_status (fst (main ROOT fs exec argv (initial w))) = 1 \<and>
      fst (main ROOT fs exec argv (initial w)) \<noteq> Inr 0) \<and>
   world (snd (main ROOT fs exec argv (initial w))) =
     replay exec w (map fst (trace (snd (main ROOT fs exec argv (initial w)))))"
proof -
  let ?es = "executed exec w (planned ROOT fs argv)"
  have tr: "trace (snd (main ROOT fs exec argv (initial w))) = ?es"
    by (simp add: main_trace initial_def)
  have "\<forall>e \<in> set (butlast ?es). snd e = Exited 0"
    by (simp add: executed_butlast)
  moreover have "(\<exists>e \<in> set ?es. snd e \<noteq> Exited 0) \<longrightarrow>
      exit_status (fst (main ROOT fs exec argv (initial w))) = 1 \<and>
      fst (main ROOT fs exec argv (initial w)) \<noteq> Inr 0"
    by (cases "changed_files_of fs argv")
       (auto simp add: main_result initial_def exit_status_def)
  moreover have "world (snd (main ROOT fs exec argv (initial w))) = replay exec w (map fst ?es)"
    by (simp add: main_world initial_def)
  ultimately show ?thesis unfolding tr by blast
qed

theorem first_failure_ends_run_witness:
  "trace (snd (main (Path ''/repo'') (plain {Path ''infra-ai-hub/a/x.tf'', Path ''infra-ai-hub/a/y.tf''}) fmt_fails
      [''terraform_lint.py'', ''infra-ai-hub/a/x.tf'', ''infra-ai-hub/a/y.tf''] (initial 0))) =
     [(fmt_invocation (Path ''/repo'') (Path ''infra-ai-hub/a/x.tf''), Exited 3)] \<and>
   exit_status (fst (main (Path ''/repo'') (plain {Path ''infra-ai-hub/a/x.tf'', Path ''infra-ai-hub/a/y.tf''}) fmt_fails
      [''terraform_lint.py'', ''infra-ai-hub/a/x.tf'', ''infra-ai-hub/a/y.tf''] (initial 0))) = 1 \<and>
   world (snd (main (Path ''/repo'') (plain {Path ''infra-ai-hub/a/x.tf'', Path ''infra-ai-hub/a/y.tf''}) fmt_fails
      [''terraform_lint.py'', ''infra-ai-hub/a/x.tf'', ''infra-ai-hub/a/y.tf''] (initial 0))) = 1"
proof -
  let ?R = "Path ''/repo''" and ?F = "plain {Path ''infra-ai-hub/a/x.tf'', Path ''infra-ai-hub/a/y.tf''}"
  let ?A = "[''terraform_lint.py'', ''infra-ai-hub/a/x.tf'', ''infra-ai-hub/a/y.tf'']"
  have tr: "trace (snd (main ?R ?F fmt_fails ?A (initial 0))) =
      [(fmt_invocation ?R (Path ''infra-ai-hub/a/x.tf''), Exited 3)]"
    by code_simp
  then have bad: "\<exists>e \<in> set (trace (snd (main ?R ?F fmt_fails ?A (initial 0)))). snd e \<noteq> Exited 0"
    by simp
  have "replay fmt_fails 0 [fmt_invocation ?R (Path ''infra-ai-hub/a/x.tf'')] = 1"
    by (simp add: fmt_fails_def)
  with tr bad first_failure_ends_run [of ?R ?F fmt_fails ?A 0]
  show ?thesis by simp
qed

subsection \<open>Running twice\<close>

text \<open>
  C7. When the outcome of an invocation does not depend on the state of the world (the
  tools behave the same each time) and the file system is the same, a second run on the
  same arguments, started in the world that the first run left behind, ends with the same
  exit status as the first. The script keeps nothing between runs: its state is the world.
\<close>

theorem rerun_same_exit_code:
  "\<forall>w w' i. fst (exec w i) = fst (exec w' i) \<Longrightarrow>
     exit_status (fst (main ROOT fs exec argv
        (initial (world (snd (main ROOT fs exec argv (initial w))))))) =
     exit_status (fst (main ROOT fs exec argv (initial w)))"
proof -
  assume fixed: "\<forall>w w' i. fst (exec w i) = fst (exec w' i)"
  let ?w1 = "world (snd (main ROOT fs exec argv (initial w)))"
  have "executed exec ?w1 invs = executed exec w invs" for invs
    using fixed by (rule executed_fixed_behaviour)
  then show ?thesis by (simp add: main_exit_status initial_def split: sum.splits)
qed

theorem rerun_same_exit_code_witness:
  "fst (fmt_fails 0 (fmt_invocation (Path ''/repo'') (Path ''infra-ai-hub/a/x.tf''))) =
     fst (fmt_fails 1 (fmt_invocation (Path ''/repo'') (Path ''infra-ai-hub/a/x.tf''))) \<and>
   world (snd (main (Path ''/repo'') (plain {Path ''infra-ai-hub/a/x.tf''}) fmt_fails
      [''terraform_lint.py'', ''infra-ai-hub/a/x.tf''] (initial 0))) = 1 \<and>
   exit_status (fst (main (Path ''/repo'') (plain {Path ''infra-ai-hub/a/x.tf''}) fmt_fails
      [''terraform_lint.py'', ''infra-ai-hub/a/x.tf''] (initial 1))) =
   exit_status (fst (main (Path ''/repo'') (plain {Path ''infra-ai-hub/a/x.tf''}) fmt_fails
      [''terraform_lint.py'', ''infra-ai-hub/a/x.tf''] (initial 0)))"
proof -
  let ?R = "Path ''/repo''" and ?F = "plain {Path ''infra-ai-hub/a/x.tf''}"
  let ?A = "[''terraform_lint.py'', ''infra-ai-hub/a/x.tf'']"
  have fixed: "\<forall>w w' i. fst (fmt_fails w i) = fst (fmt_fails w' i)"
    by (simp add: fmt_fails_def)
  have w1: "world (snd (main ?R ?F fmt_fails ?A (initial 0))) = 1"
    by code_simp
  from fixed w1 rerun_same_exit_code [OF fixed, of ?R ?F ?A 0]
  show ?thesis by simp
qed

subsection \<open>The order of the invocations\<close>

text \<open>
  C5 as stated: for every input the invocations made are one format check for each
  qualifying file and then the lint pair of each work directory. With two qualifying files
  and a \<^verbatim>\<open>terraform fmt\<close> that rejects the first, the run consists of that one format check:
  the second file is never checked and no lint runs. And with a qualifying file followed by
  \<^verbatim>\<open>locked/notes.md\<close>, whose existence check raises, no invocation is made at all.
\<close>

theorem full_plan_not_always_run:
  "map fst (trace (snd (main (Path ''/repo'') (plain {Path ''infra-ai-hub/a/x.tf'', Path ''infra-ai-hub/a/y.tf''})
      fmt_fails [''terraform_lint.py'', ''infra-ai-hub/a/x.tf'', ''infra-ai-hub/a/y.tf''] (initial 0)))) =
     [\<lparr>command = [''terraform'', ''fmt'', ''-check'', ''-diff'', ''/repo/infra-ai-hub/a/x.tf''],
       cwd = Path ''/repo''\<rparr>] \<and>
   changed_files_of (plain {Path ''infra-ai-hub/a/x.tf'', Path ''infra-ai-hub/a/y.tf''})
      [''terraform_lint.py'', ''infra-ai-hub/a/x.tf'', ''infra-ai-hub/a/y.tf''] =
     Inr [Path ''infra-ai-hub/a/x.tf'', Path ''infra-ai-hub/a/y.tf''] \<and>
   map fst (trace (snd (main (Path ''/repo'') (plain {Path ''infra-ai-hub/a/x.tf'', Path ''infra-ai-hub/a/y.tf''})
      fmt_fails [''terraform_lint.py'', ''infra-ai-hub/a/x.tf'', ''infra-ai-hub/a/y.tf''] (initial 0)))) \<noteq>
     plan (Path ''/repo'') [Path ''infra-ai-hub/a/x.tf'', Path ''infra-ai-hub/a/y.tf''] \<and>
   is_under_terraform_roots
     \<lparr>existing = {Path ''infra-ai-hub/a/x.tf''}, unreadable = {Path ''locked/notes.md''}, symlinks = {}\<rparr>
     (Path ''infra-ai-hub/a/x.tf'') = Inr True \<and>
   trace (snd (main (Path ''/repo'')
     \<lparr>existing = {Path ''infra-ai-hub/a/x.tf''}, unreadable = {Path ''locked/notes.md''}, symlinks = {}\<rparr>
     all_pass [''terraform_lint.py'', ''infra-ai-hub/a/x.tf'', ''locked/notes.md''] (initial 0))) = []"
  by code_simp

text \<open>
  C5, amended. When the existence check of every argument completes, the invocations made
  are the planned sequence (a format check \<^verbatim>\<open>terraform fmt -check -diff\<close> of the root-joined
  path of each qualifying file in input order, run in the root; then for each work directory
  in sorted order \<^verbatim>\<open>tflint --init\<close> directly followed by
  \<^verbatim>\<open>tflint --minimum-failure-severity=error\<close>, both in that directory) up to and including the
  first invocation that fails; when none fails it is the whole sequence. In every run the
  format checks come before all lint invocations. The root is absolute (line 8 resolves
  it), and then the file argument of each format check is an absolute path: the root, a
  slash and the path as given. When the existence check of some argument raises, \<open>main\<close> ends
  with that \<^verbatim>\<open>OSError\<close> and no invocation is made.
\<close>

theorem invocations_follow_plan_until_failure:
  "(changed_files_of fs argv = Inr cf \<longrightarrow>
      trace (snd (main ROOT fs exec argv (initial w))) = executed exec w (plan ROOT cf) \<and>
      map fst (trace (snd (main ROOT fs exec argv (initial w)))) =
        take (length (trace (snd (main ROOT fs exec argv (initial w))))) (plan ROOT cf) \<and>
      ((\<forall>e \<in> set (trace (snd (main ROOT fs exec argv (initial w)))). snd e = Exited 0) \<longrightarrow>
         map fst (trace (snd (main ROOT fs exec argv (initial w)))) =
           map (fmt_invocation ROOT) cf @ concat (map lint_invocations (get_tflint_workdirs ROOT cf))) \<and>
      (\<exists>a b. map fst (trace (snd (main ROOT fs exec argv (initial w)))) = a @ b \<and>
         (\<forall>i \<in> set a. \<exists>f \<in> set cf. i = fmt_invocation ROOT f) \<and>
         (\<forall>i \<in> set b. \<exists>d \<in> set (get_tflint_workdirs ROOT cf). i \<in> set (lint_invocations d))) \<and>
      sorted (map parts_normcase (get_tflint_workdirs ROOT cf)) \<and>
      (root ROOT = ''/'' \<longrightarrow>
         (\<forall>f \<in> set cf.
             str (joinpath ROOT f) = root_prefix ROOT @ as_posix f \<and>
             take 1 (str (joinpath ROOT f)) = ''/''))) \<and>
   (changed_files_of fs argv = Inl e \<longrightarrow>
      main ROOT fs exec argv (initial w) = (Inl e, initial w) \<and>
      trace (snd (main ROOT fs exec argv (initial w))) = []) \<and>
   (changed_files_of fs argv = Inr cf \<longleftrightarrow>
      (\<forall>a \<in> set (drop 1 argv). exists fs (Path a) \<noteq> Inl OSError) \<and>
      cf = filter (\<lambda>p. is_under_terraform_roots fs p = Inr True) (map Path (drop 1 argv))) \<and>
   (changed_files_of fs argv = Inl e \<longleftrightarrow>
      e = OSError \<and> (\<exists>a \<in> set (drop 1 argv). exists fs (Path a) = Inl OSError))"
proof (intro conjI impI)
  assume cf: "changed_files_of fs argv = Inr cf"
  let ?es = "executed exec w (plan ROOT cf)"
  from cf show tr: "trace (snd (main ROOT fs exec argv (initial w))) = ?es"
    by (simp add: main_trace initial_def)
  have pre: "map fst ?es = take (length ?es) (plan ROOT cf)"
    by (rule executed_fst)
  then show "map fst (trace (snd (main ROOT fs exec argv (initial w)))) =
      take (length (trace (snd (main ROOT fs exec argv (initial w))))) (plan ROOT cf)"
    unfolding tr .
  show "\<exists>a b. map fst (trace (snd (main ROOT fs exec argv (initial w)))) = a @ b \<and>
      (\<forall>i \<in> set a. \<exists>f \<in> set cf. i = fmt_invocation ROOT f) \<and>
      (\<forall>i \<in> set b. \<exists>d \<in> set (get_tflint_workdirs ROOT cf). i \<in> set (lint_invocations d))"
    unfolding tr pre by (rule take_plan_split)
  show "sorted (map parts_normcase (get_tflint_workdirs ROOT cf))"
    by (simp add: get_tflint_workdirs_def)
  {
    assume "\<forall>e \<in> set (trace (snd (main ROOT fs exec argv (initial w)))). snd e = Exited 0"
    then have "\<forall>e \<in> set ?es. snd e = Exited 0" unfolding tr .
    then have "map fst ?es = plan ROOT cf" by (rule executed_all_ok)
    then show "map fst (trace (snd (main ROOT fs exec argv (initial w)))) =
        map (fmt_invocation ROOT) cf @ concat (map lint_invocations (get_tflint_workdirs ROOT cf))"
      unfolding tr by (simp add: plan_def)
  }
  {
    assume "root ROOT = ''/''"
    with cf show "\<forall>f \<in> set cf.
        str (joinpath ROOT f) = root_prefix ROOT @ as_posix f \<and> take 1 (str (joinpath ROOT f)) = ''/''"
      using fmt_target_absolute [of ROOT fs argv cf] by blast
  }
next
  assume e: "changed_files_of fs argv = Inl e"
  then show m: "main ROOT fs exec argv (initial w) = (Inl e, initial w)"
    by (rule main_filter_raises)
  show "trace (snd (main ROOT fs exec argv (initial w))) = []"
    unfolding m by (simp add: initial_def)
next
  show "changed_files_of fs argv = Inr cf \<longleftrightarrow>
      (\<forall>a \<in> set (drop 1 argv). exists fs (Path a) \<noteq> Inl OSError) \<and>
      cf = filter (\<lambda>p. is_under_terraform_roots fs p = Inr True) (map Path (drop 1 argv))"
    by (rule changed_files_Inr)
  show "changed_files_of fs argv = Inl e \<longleftrightarrow>
      e = OSError \<and> (\<exists>a \<in> set (drop 1 argv). exists fs (Path a) = Inl OSError)"
    by (rule changed_files_Inl)
qed

theorem invocations_follow_plan_until_failure_witness:
  "changed_files_of (plain {Path ''initial-setup/infra/b/z.tf'', Path ''infra-ai-hub/a/x.tf''})
      [''terraform_lint.py'', ''initial-setup/infra/b/z.tf'', ''infra-ai-hub/a/x.tf''] =
     Inr [Path ''initial-setup/infra/b/z.tf'', Path ''infra-ai-hub/a/x.tf''] \<and>
   map fst (trace (snd (main (Path ''/repo'')
      (plain {Path ''initial-setup/infra/b/z.tf'', Path ''infra-ai-hub/a/x.tf''}) all_pass
      [''terraform_lint.py'', ''initial-setup/infra/b/z.tf'', ''infra-ai-hub/a/x.tf''] (initial 0)))) =
     [\<lparr>command = [''terraform'', ''fmt'', ''-check'', ''-diff'', ''/repo/initial-setup/infra/b/z.tf''],
       cwd = Path ''/repo''\<rparr>,
      \<lparr>command = [''terraform'', ''fmt'', ''-check'', ''-diff'', ''/repo/infra-ai-hub/a/x.tf''],
       cwd = Path ''/repo''\<rparr>,
      \<lparr>command = [''tflint'', ''--init''], cwd = Path ''/repo/infra-ai-hub/a''\<rparr>,
      \<lparr>command = [''tflint'', ''--minimum-failure-severity=error''], cwd = Path ''/repo/infra-ai-hub/a''\<rparr>,
      \<lparr>command = [''tflint'', ''--init''], cwd = Path ''/repo/initial-setup/infra/b''\<rparr>,
      \<lparr>command = [''tflint'', ''--minimum-failure-severity=error''],
       cwd = Path ''/repo/initial-setup/infra/b''\<rparr>]"
proof -
  let ?R = "Path ''/repo''" and ?F = "plain {Path ''initial-setup/infra/b/z.tf'', Path ''infra-ai-hub/a/x.tf''}"
  let ?A = "[''terraform_lint.py'', ''initial-setup/infra/b/z.tf'', ''infra-ai-hub/a/x.tf'']"
  let ?C = "[Path ''initial-setup/infra/b/z.tf'', Path ''infra-ai-hub/a/x.tf'']"
  have cf: "changed_files_of ?F ?A = Inr ?C" by code_simp
  have ok: "\<forall>e \<in> set (trace (snd (main ?R ?F all_pass ?A (initial 0)))). snd e = Exited 0"
    by code_simp
  have pl: "map (fmt_invocation ?R) ?C @ concat (map lint_invocations (get_tflint_workdirs ?R ?C)) =
     [\<lparr>command = [''terraform'', ''fmt'', ''-check'', ''-diff'', ''/repo/initial-setup/infra/b/z.tf''],
       cwd = Path ''/repo''\<rparr>,
      \<lparr>command = [''terraform'', ''fmt'', ''-check'', ''-diff'', ''/repo/infra-ai-hub/a/x.tf''],
       cwd = Path ''/repo''\<rparr>,
      \<lparr>command = [''tflint'', ''--init''], cwd = Path ''/repo/infra-ai-hub/a''\<rparr>,
      \<lparr>command = [''tflint'', ''--minimum-failure-severity=error''], cwd = Path ''/repo/infra-ai-hub/a''\<rparr>,
      \<lparr>command = [''tflint'', ''--init''], cwd = Path ''/repo/initial-setup/infra/b''\<rparr>,
      \<lparr>command = [''tflint'', ''--minimum-failure-severity=error''],
       cwd = Path ''/repo/initial-setup/infra/b''\<rparr>]"
    by code_simp
  from cf ok invocations_follow_plan_until_failure [of ?F ?A ?C ?R all_pass 0]
  have "map fst (trace (snd (main ?R ?F all_pass ?A (initial 0)))) =
      map (fmt_invocation ?R) ?C @ concat (map lint_invocations (get_tflint_workdirs ?R ?C))"
    by blast
  with cf pl show ?thesis by simp
qed

subsection \<open>The work directories of the example\<close>

text \<open>
  C3. For the three files \<^verbatim>\<open>infra-ai-hub/a/x.tf\<close>, \<^verbatim>\<open>infra-ai-hub/a/y.tf\<close> and
  \<^verbatim>\<open>initial-setup/infra/b/z.tf\<close>, given in any order, \<open>get_tflint_workdirs\<close> returns the two
  directories \<^verbatim>\<open>infra-ai-hub/a\<close> and \<^verbatim>\<open>initial-setup/infra/b\<close>, each resolved against the
  root, in this order. In general the result does not depend on the order of the input
  (for a parsed root and parsed paths), holds no directory twice, is sorted by the key of
  the path order, and holds exactly the parents of the root-joined input paths.
\<close>

theorem workdirs_sorted_distinct_order_independent:
  "(mset xs = mset [Path ''infra-ai-hub/a/x.tf'', Path ''infra-ai-hub/a/y.tf'',
        Path ''initial-setup/infra/b/z.tf''] \<longrightarrow>
      get_tflint_workdirs ROOT xs =
        [joinpath ROOT (Path ''infra-ai-hub/a''), joinpath ROOT (Path ''initial-setup/infra/b'')]) \<and>
   (valid_path ROOT \<and> (\<forall>f \<in> set xs. valid_path f) \<and> mset ys = mset xs \<longrightarrow>
      get_tflint_workdirs ROOT ys = get_tflint_workdirs ROOT xs) \<and>
   distinct (get_tflint_workdirs ROOT xs) \<and>
   sorted (map parts_normcase (get_tflint_workdirs ROOT xs)) \<and>
   set (get_tflint_workdirs ROOT xs) = (\<lambda>f. parent (joinpath ROOT f)) ` set xs"
proof (intro conjI impI)
  assume "mset xs = mset [Path ''infra-ai-hub/a/x.tf'', Path ''infra-ai-hub/a/y.tf'',
      Path ''initial-setup/infra/b/z.tf'']"
  then have "set xs = set [Path ''infra-ai-hub/a/x.tf'', Path ''infra-ai-hub/a/y.tf'',
      Path ''initial-setup/infra/b/z.tf'']"
    by (rule mset_eq_setD)
  then show "get_tflint_workdirs ROOT xs =
      [joinpath ROOT (Path ''infra-ai-hub/a''), joinpath ROOT (Path ''initial-setup/infra/b'')]"
    by (intro example_workdirs) simp
next
  assume a: "valid_path ROOT \<and> (\<forall>f \<in> set xs. valid_path f) \<and> mset ys = mset xs"
  then have "set xs = set ys" by (auto dest: mset_eq_setD)
  with a show "get_tflint_workdirs ROOT ys = get_tflint_workdirs ROOT xs"
    by (intro workdirs_same_set [symmetric]) simp_all
qed (rule workdirs_distinct workdirs_sorted workdirs_set)+


theorem workdirs_sorted_distinct_order_independent_witness:
  "mset [Path ''initial-setup/infra/b/z.tf'', Path ''infra-ai-hub/a/x.tf'', Path ''infra-ai-hub/a/y.tf''] =
     mset [Path ''infra-ai-hub/a/x.tf'', Path ''infra-ai-hub/a/y.tf'', Path ''initial-setup/infra/b/z.tf''] \<and>
   valid_path (Path ''/repo'') \<and>
   get_tflint_workdirs (Path ''/repo'')
     [Path ''initial-setup/infra/b/z.tf'', Path ''infra-ai-hub/a/x.tf'', Path ''infra-ai-hub/a/y.tf''] =
     [Path ''/repo/infra-ai-hub/a'', Path ''/repo/initial-setup/infra/b''] \<and>
   get_tflint_workdirs (Path ''/repo'')
     [Path ''infra-ai-hub/a/y.tf'', Path ''initial-setup/infra/b/z.tf'', Path ''infra-ai-hub/a/x.tf''] =
   get_tflint_workdirs (Path ''/repo'')
     [Path ''initial-setup/infra/b/z.tf'', Path ''infra-ai-hub/a/x.tf'', Path ''infra-ai-hub/a/y.tf'']"
proof -
  let ?X = "Path ''infra-ai-hub/a/x.tf''" and ?Y = "Path ''infra-ai-hub/a/y.tf''"
  let ?Z = "Path ''initial-setup/infra/b/z.tf''" and ?R = "Path ''/repo''"
  have p1: "mset [?Z, ?X, ?Y] = mset [?X, ?Y, ?Z]" by simp
  have p2: "mset [?Y, ?Z, ?X] = mset [?Z, ?X, ?Y]" by simp
  have v: "valid_path ?R \<and> (\<forall>f \<in> set [?Z, ?X, ?Y]. valid_path f)"
    by (simp add: valid_Path)
  have j: "joinpath ?R (Path ''infra-ai-hub/a'') = Path ''/repo/infra-ai-hub/a''"
    "joinpath ?R (Path ''initial-setup/infra/b'') = Path ''/repo/initial-setup/infra/b''"
    by (simp_all add: path_eval)
  from p1 p2 v workdirs_sorted_distinct_order_independent [of "[?Z, ?X, ?Y]" ?R "[?Y, ?Z, ?X]"]
  show ?thesis unfolding j by blast
qed

subsection \<open>Where the lint runs\<close>

text \<open>
  C10 as stated: every lint working directory lies inside the repository root, because
  every qualifying path is relative. A relative path may climb: the existing file
  \<^verbatim>\<open>infra-ai-hub/../../elsewhere/main.tf\<close> qualifies (\<^verbatim>\<open>pathlib\<close> keeps \<^verbatim>\<open>..\<close>), and with the root
  \<^verbatim>\<open>/repo\<close> both lint invocations run in \<^verbatim>\<open>/repo/infra-ai-hub/../../elsewhere\<close>. In a file
  system without symbolic links that name leads to \<^verbatim>\<open>/elsewhere\<close>, outside the root.
\<close>

theorem lint_directory_can_leave_root:
  "is_under_terraform_roots (plain {Path ''infra-ai-hub/../../elsewhere/main.tf''})
     (Path ''infra-ai-hub/../../elsewhere/main.tf'') = Inr True \<and>
   map cwd (map fst (trace (snd (main (Path ''/repo'') (plain {Path ''infra-ai-hub/../../elsewhere/main.tf''})
      all_pass [''terraform_lint.py'', ''infra-ai-hub/../../elsewhere/main.tf''] (initial 0))))) =
     [Path ''/repo'', Path ''/repo/infra-ai-hub/../../elsewhere'',
      Path ''/repo/infra-ai-hub/../../elsewhere''] \<and>
   location (plain {Path ''infra-ai-hub/../../elsewhere/main.tf''})
     (Path ''/repo/infra-ai-hub/../../elsewhere'') = Some (Path ''/elsewhere'') \<and>
   \<not> lies_inside (plain {Path ''infra-ai-hub/../../elsewhere/main.tf''}) (Path ''/repo'')
     (Path ''/repo/infra-ai-hub/../../elsewhere'')"
  by code_simp

text \<open>
  C10, amended. In every run, the working directory of every lint invocation is the
  repository root joined with the parent of a qualifying path; that path is relative, so the
  directory has the root's root and the root's components as a proper initial segment of
  its own; and it lies inside the repository root whenever neither the root nor the
  qualifying path has a component \<^verbatim>\<open>..\<close> and no path on the way from the root of the file
  system to the directory is a symbolic link.
\<close>

theorem lint_directory_below_root:
  "\<forall>e \<in> set (trace (snd (main ROOT fs exec argv (initial w)))).
     take 1 (command (fst e)) = [''tflint''] \<longrightarrow>
     (\<exists>cf. changed_files_of fs argv = Inr cf \<and>
        (\<exists>f \<in> set cf.
           is_under_terraform_roots fs f = Inr True \<and> root f = [] \<and>
           cwd (fst e) = joinpath ROOT (parent f) \<and>
           root (cwd (fst e)) = root ROOT \<and>
           length (tail ROOT) < length (tail (cwd (fst e))) \<and>
           take (length (tail ROOT)) (tail (cwd (fst e))) = tail ROOT \<and>
           (''..'' \<notin> set (tail ROOT) \<and> ''..'' \<notin> set (tail f) \<and>
            (\<forall>n. \<lparr>root = root ROOT, tail = take n (tail (cwd (fst e)))\<rparr> \<notin> symlinks fs) \<longrightarrow>
              lies_inside fs ROOT (cwd (fst e)))))"
proof (intro ballI impI)
  fix e
  assume mem: "e \<in> set (trace (snd (main ROOT fs exec argv (initial w))))"
    and lint: "take 1 (command (fst e)) = [''tflint'']"
  from mem have ne: "trace (snd (main ROOT fs exec argv (initial w))) \<noteq> []" by auto
  obtain cf where cf: "changed_files_of fs argv = Inr cf"
  proof (cases "changed_files_of fs argv")
    case (Inl x)
    then have "trace (snd (main ROOT fs exec argv (initial w))) = []"
      by (simp add: main_filter_raises initial_def)
    with ne show ?thesis by simp
  next
    case (Inr c)
    then show ?thesis by (rule that)
  qed
  with mem have "e \<in> set (executed exec w (plan ROOT cf))"
    by (simp add: main_trace initial_def)
  then have "fst e \<in> set (plan ROOT cf)" by (rule executed_subset)
  with lint have "\<exists>d \<in> set (get_tflint_workdirs ROOT cf). fst e \<in> set (lint_invocations d)"
    by (auto simp: plan_def fmt_invocation_def)
  then obtain d where d: "d \<in> set (get_tflint_workdirs ROOT cf)" and "fst e \<in> set (lint_invocations d)"
    by blast
  then have cw: "cwd (fst e) = d" by (auto simp: lint_invocations_def)
  from d obtain f where f: "f \<in> set cf" and df: "d = parent (joinpath ROOT f)"
    by (auto simp: workdirs_set)
  from cf f have v: "valid_path f" and q: "is_under_terraform_roots fs f = Inr True"
    using changed_files_valid [of fs argv cf f] by simp_all
  from v q have rt: "root f = []" and
    "\<exists>rest. rest \<noteq> [] \<and> (tail f = ''initial-setup'' # ''infra'' # rest \<or> tail f = ''infra-ai-hub'' # rest)"
    using qualifying_components by blast+
  then have nt: "tail f \<noteq> []" and bl: "butlast (tail f) \<noteq> []"
    and ln: "Suc 0 < length (tail f)" by auto
  from rt nt have pj: "d = \<lparr>root = root ROOT, tail = tail ROOT @ butlast (tail f)\<rparr>"
    and jp: "joinpath ROOT (parent f) = d"
    unfolding df using parent_joinpath [of f ROOT] by simp_all
  have "''..'' \<notin> set (tail ROOT) \<and> ''..'' \<notin> set (tail f) \<and>
      (\<forall>n. \<lparr>root = root ROOT, tail = take n (tail d)\<rparr> \<notin> symlinks fs) \<longrightarrow> lies_inside fs ROOT d"
  proof
    assume nd: "''..'' \<notin> set (tail ROOT) \<and> ''..'' \<notin> set (tail f) \<and>
      (\<forall>n. \<lparr>root = root ROOT, tail = take n (tail d)\<rparr> \<notin> symlinks fs)"
    then have "''..'' \<notin> set (tail d)"
      unfolding pj by (auto dest: in_set_butlastD)
    moreover from nd have "\<forall>n. \<lparr>root = root d, tail = rev [] @ take n (tail d)\<rparr> \<notin> symlinks fs"
      by (simp add: pj)
    ultimately have "walk (symlinks fs) (root d) [] (tail d) = Some (rev [] @ tail d)"
      by (rule walk_no_link)
    then show "lies_inside fs ROOT d"
      by (simp add: lies_inside_def location_def pj)
  qed
  with cf f q rt jp bl ln show "\<exists>cf. changed_files_of fs argv = Inr cf \<and>
        (\<exists>f \<in> set cf.
           is_under_terraform_roots fs f = Inr True \<and> root f = [] \<and>
           cwd (fst e) = joinpath ROOT (parent f) \<and>
           root (cwd (fst e)) = root ROOT \<and>
           length (tail ROOT) < length (tail (cwd (fst e))) \<and>
           take (length (tail ROOT)) (tail (cwd (fst e))) = tail ROOT \<and>
           (''..'' \<notin> set (tail ROOT) \<and> ''..'' \<notin> set (tail f) \<and>
            (\<forall>n. \<lparr>root = root ROOT, tail = take n (tail (cwd (fst e)))\<rparr> \<notin> symlinks fs) \<longrightarrow>
              lies_inside fs ROOT (cwd (fst e))))"
    unfolding cw by (intro exI [of _ cf] conjI bexI [of _ f]) (simp_all add: pj)
qed

theorem lint_directory_below_root_witness:
  "(\<lparr>command = [''tflint'', ''--init''], cwd = Path ''/repo/infra-ai-hub/a''\<rparr>, Exited 0)
     \<in> set (trace (snd (main (Path ''/repo'') (plain {Path ''infra-ai-hub/a/x.tf''}) all_pass
          [''terraform_lint.py'', ''infra-ai-hub/a/x.tf''] (initial 0)))) \<and>
   take 1 (command \<lparr>command = [''tflint'', ''--init''], cwd = Path ''/repo/infra-ai-hub/a''\<rparr>) = [''tflint''] \<and>
   ''..'' \<notin> set (tail (Path ''/repo'')) \<and>
   ''..'' \<notin> set (tail (Path ''infra-ai-hub/a/x.tf'')) \<and>
   symlinks (plain {Path ''infra-ai-hub/a/x.tf''}) = {} \<and>
   Path ''/repo/infra-ai-hub/a'' = joinpath (Path ''/repo'') (parent (Path ''infra-ai-hub/a/x.tf'')) \<and>
   lies_inside (plain {Path ''infra-ai-hub/a/x.tf''}) (Path ''/repo'') (Path ''/repo/infra-ai-hub/a'')"
proof -
  let ?R = "Path ''/repo''" and ?F = "plain {Path ''infra-ai-hub/a/x.tf''}"
  let ?A = "[''terraform_lint.py'', ''infra-ai-hub/a/x.tf'']"
  let ?E = "(\<lparr>command = [''tflint'', ''--init''], cwd = Path ''/repo/infra-ai-hub/a''\<rparr>, Exited 0)"
  have mem: "?E \<in> set (trace (snd (main ?R ?F all_pass ?A (initial 0))))"
    by code_simp
  have cmd: "take 1 (command (fst ?E)) = [''tflint'']" by simp
  have cf: "changed_files_of ?F ?A = Inr [Path ''infra-ai-hub/a/x.tf'']" by code_simp
  have nd: "''..'' \<notin> set (tail ?R)" "''..'' \<notin> set (tail (Path ''infra-ai-hub/a/x.tf''))"
    by (simp_all add: path_eval)
  have nl: "symlinks ?F = {}" by (simp add: plain_def)
  have jp: "Path ''/repo/infra-ai-hub/a'' = joinpath ?R (parent (Path ''infra-ai-hub/a/x.tf''))"
    by (simp add: path_eval)
  from lint_directory_below_root [of ?R ?F all_pass ?A 0] mem cmd
  have "\<exists>cf. changed_files_of ?F ?A = Inr cf \<and> (\<exists>f \<in> set cf.
      (''..'' \<notin> set (tail ?R) \<and> ''..'' \<notin> set (tail f) \<and>
       (\<forall>n. \<lparr>root = root ?R, tail = take n (tail (cwd (fst ?E)))\<rparr> \<notin> symlinks ?F) \<longrightarrow>
         lies_inside ?F ?R (cwd (fst ?E))))"
    by blast
  with cf nd nl have "lies_inside ?F ?R (Path ''/repo/infra-ai-hub/a'')" by simp
  with mem nd nl jp show ?thesis by simp
qed

subsection \<open>Repeated arguments\<close>

text \<open>
  C9 as stated: a qualifying path given \<open>k\<close> times is format-checked exactly \<open>k\<close> times.
  With the same file given twice and a \<^verbatim>\<open>terraform fmt\<close> that rejects it, the first check
  fails and ends the run: one format check is made, not two. And with the file given twice
  and then \<^verbatim>\<open>locked/notes.md\<close>, whose existence check raises, no format check is made.
\<close>

theorem repeated_file_not_always_rechecked:
  "is_under_terraform_roots (plain {Path ''infra-ai-hub/a/x.tf''}) (Path ''infra-ai-hub/a/x.tf'') = Inr True \<and>
   count_list (map Path (drop 1 [''terraform_lint.py'', ''infra-ai-hub/a/x.tf'', ''infra-ai-hub/a/x.tf'']))
     (Path ''infra-ai-hub/a/x.tf'') = 2 \<and>
   count_list
     (map fst (trace (snd (main (Path ''/repo'') (plain {Path ''infra-ai-hub/a/x.tf''}) fmt_fails
        [''terraform_lint.py'', ''infra-ai-hub/a/x.tf'', ''infra-ai-hub/a/x.tf''] (initial 0)))))
     (fmt_invocation (Path ''/repo'') (Path ''infra-ai-hub/a/x.tf'')) = 1 \<and>
   is_under_terraform_roots
     \<lparr>existing = {Path ''infra-ai-hub/a/x.tf''}, unreadable = {Path ''locked/notes.md''}, symlinks = {}\<rparr>
     (Path ''infra-ai-hub/a/x.tf'') = Inr True \<and>
   count_list
     (map fst (trace (snd (main (Path ''/repo'')
        \<lparr>existing = {Path ''infra-ai-hub/a/x.tf''}, unreadable = {Path ''locked/notes.md''}, symlinks = {}\<rparr>
        all_pass [''terraform_lint.py'', ''infra-ai-hub/a/x.tf'', ''infra-ai-hub/a/x.tf'', ''locked/notes.md'']
        (initial 0)))))
     (fmt_invocation (Path ''/repo'') (Path ''infra-ai-hub/a/x.tf'')) = 0"
  by code_simp

text \<open>
  C9, amended. When the existence check of every argument completes, the qualifying list
  is the argument list filtered, so it keeps the order of the arguments and holds a
  qualifying path as often as the arguments do; the run makes at most that many format
  checks for it, and exactly that many when no format check fails; and the list of work
  directories holds the parent directory of a qualifying path exactly once. When the
  existence check of some argument raises, there is no qualifying list and no invocation.
\<close>

theorem format_checks_keep_multiplicity:
  "(changed_files_of fs argv = Inr cf \<longrightarrow>
      cf = filter (\<lambda>q. is_under_terraform_roots fs q = Inr True) (map Path (drop 1 argv)) \<and>
      count_list cf p =
        (if is_under_terraform_roots fs p = Inr True then count_list (map Path (drop 1 argv)) p else 0) \<and>
      (valid_path p \<and> is_under_terraform_roots fs p = Inr True \<longrightarrow>
         count_list (map fst (trace (snd (main ROOT fs exec argv (initial w))))) (fmt_invocation ROOT p)
           \<le> count_list (map Path (drop 1 argv)) p \<and>
         ((\<forall>e \<in> set (trace (snd (main ROOT fs exec argv (initial w)))).
              take 1 (command (fst e)) = [''terraform''] \<longrightarrow> snd e = Exited 0) \<longrightarrow>
          count_list (map fst (trace (snd (main ROOT fs exec argv (initial w))))) (fmt_invocation ROOT p)
            = count_list (map Path (drop 1 argv)) p)) \<and>
      (p \<in> set cf \<longrightarrow> count_list (get_tflint_workdirs ROOT cf) (parent (joinpath ROOT p)) = 1)) \<and>
   (changed_files_of fs argv = Inl e \<longrightarrow>
      main ROOT fs exec argv (initial w) = (Inl e, initial w) \<and>
      trace (snd (main ROOT fs exec argv (initial w))) = []) \<and>
   (changed_files_of fs argv = Inr cf \<longleftrightarrow>
      (\<forall>a \<in> set (drop 1 argv). exists fs (Path a) \<noteq> Inl OSError) \<and>
      cf = filter (\<lambda>p. is_under_terraform_roots fs p = Inr True) (map Path (drop 1 argv))) \<and>
   (changed_files_of fs argv = Inl e \<longleftrightarrow>
      e = OSError \<and> (\<exists>a \<in> set (drop 1 argv). exists fs (Path a) = Inl OSError))"
proof (intro conjI impI)
  assume cf: "changed_files_of fs argv = Inr cf"
  then show flt: "cf = filter (\<lambda>q. is_under_terraform_roots fs q = Inr True) (map Path (drop 1 argv))"
    by (simp add: changed_files_Inr)
  show "count_list cf p =
      (if is_under_terraform_roots fs p = Inr True then count_list (map Path (drop 1 argv)) p else 0)"
    unfolding flt by (simp add: count_list_filter)
  {
    assume "p \<in> set cf"
    then have "parent (joinpath ROOT p) \<in> set (get_tflint_workdirs ROOT cf)"
      by (simp add: workdirs_set)
    with workdirs_distinct
    show "count_list (get_tflint_workdirs ROOT cf) (parent (joinpath ROOT p)) = 1"
      by (rule count_list_distinct)
  }
  let ?es = "executed exec w (plan ROOT cf)"
  let ?A = "map (fmt_invocation ROOT) cf"
  let ?B = "concat (map lint_invocations (get_tflint_workdirs ROOT cf))"
  from cf have tr: "trace (snd (main ROOT fs exec argv (initial w))) = ?es"
    by (simp add: main_trace initial_def)
  have pre: "map fst ?es = take (length ?es) (plan ROOT cf)" by (rule executed_fst)
  assume vq: "valid_path p \<and> is_under_terraform_roots fs p = Inr True"
  with cf have pl: "count_list (plan ROOT cf) (fmt_invocation ROOT p) = count_list (map Path (drop 1 argv)) p"
    and cA: "count_list ?A (fmt_invocation ROOT p) = count_list (map Path (drop 1 argv)) p"
    and nB: "fmt_invocation ROOT p \<notin> set ?B"
    using fmt_count_in_plan [of fs argv cf p ROOT] by simp_all
  have "count_list (map fst ?es) (fmt_invocation ROOT p) \<le> count_list (plan ROOT cf) (fmt_invocation ROOT p)"
    unfolding pre by (rule count_list_take_le)
  with pl show "count_list (map fst (trace (snd (main ROOT fs exec argv (initial w))))) (fmt_invocation ROOT p)
      \<le> count_list (map Path (drop 1 argv)) p"
    unfolding tr by simp
  assume "\<forall>e \<in> set (trace (snd (main ROOT fs exec argv (initial w)))).
      take 1 (command (fst e)) = [''terraform''] \<longrightarrow> snd e = Exited 0"
  then have ok: "\<forall>e \<in> set (executed exec w (?A @ ?B)).
      take 1 (command (fst e)) = [''terraform''] \<longrightarrow> snd e = Exited 0"
    unfolding tr plan_def .
  have "\<forall>a \<in> set ?A. take 1 (command a) = [''terraform'']"
    by (simp add: fmt_invocation_def)
  from this ok have "length ?A \<le> length (executed exec w (?A @ ?B))"
    by (rule executed_covers)
  then have len: "length ?A \<le> length ?es" by (simp add: plan_def)
  have "map fst ?es = ?A @ take (length ?es - length ?A) ?B"
    using len by (subst pre) (simp add: plan_def)
  moreover have "fmt_invocation ROOT p \<notin> set (take (length ?es - length ?A) ?B)"
    using nB by (blast dest: in_set_takeD)
  ultimately have "count_list (map fst ?es) (fmt_invocation ROOT p) = count_list ?A (fmt_invocation ROOT p)"
    by (simp add: count_list_0_iff)
  with cA show "count_list (map fst (trace (snd (main ROOT fs exec argv (initial w))))) (fmt_invocation ROOT p)
      = count_list (map Path (drop 1 argv)) p"
    unfolding tr by simp
next
  assume e: "changed_files_of fs argv = Inl e"
  then show m: "main ROOT fs exec argv (initial w) = (Inl e, initial w)"
    by (rule main_filter_raises)
  show "trace (snd (main ROOT fs exec argv (initial w))) = []"
    unfolding m by (simp add: initial_def)
next
  show "changed_files_of fs argv = Inr cf \<longleftrightarrow>
      (\<forall>a \<in> set (drop 1 argv). exists fs (Path a) \<noteq> Inl OSError) \<and>
      cf = filter (\<lambda>p. is_under_terraform_roots fs p = Inr True) (map Path (drop 1 argv))"
    by (rule changed_files_Inr)
  show "changed_files_of fs argv = Inl e \<longleftrightarrow>
      e = OSError \<and> (\<exists>a \<in> set (drop 1 argv). exists fs (Path a) = Inl OSError)"
    by (rule changed_files_Inl)
qed

theorem format_checks_keep_multiplicity_witness:
  "changed_files_of (plain {Path ''infra-ai-hub/a/x.tf'', Path ''infra-ai-hub/a/y.tf''})
     [''terraform_lint.py'', ''infra-ai-hub/a/x.tf'', ''infra-ai-hub/a/y.tf'', ''infra-ai-hub/a/x.tf''] =
     Inr [Path ''infra-ai-hub/a/x.tf'', Path ''infra-ai-hub/a/y.tf'', Path ''infra-ai-hub/a/x.tf''] \<and>
   valid_path (Path ''infra-ai-hub/a/x.tf'') \<and>
   is_under_terraform_roots (plain {Path ''infra-ai-hub/a/x.tf'', Path ''infra-ai-hub/a/y.tf''})
     (Path ''infra-ai-hub/a/x.tf'') = Inr True \<and>
   count_list (map Path (drop 1 [''terraform_lint.py'', ''infra-ai-hub/a/x.tf'', ''infra-ai-hub/a/y.tf'',
       ''infra-ai-hub/a/x.tf''])) (Path ''infra-ai-hub/a/x.tf'') = 2 \<and>
   count_list (map fst (trace (snd (main (Path ''/repo'')
       (plain {Path ''infra-ai-hub/a/x.tf'', Path ''infra-ai-hub/a/y.tf''}) all_pass
       [''terraform_lint.py'', ''infra-ai-hub/a/x.tf'', ''infra-ai-hub/a/y.tf'', ''infra-ai-hub/a/x.tf'']
       (initial 0))))) (fmt_invocation (Path ''/repo'') (Path ''infra-ai-hub/a/x.tf'')) = 2 \<and>
   count_list (get_tflint_workdirs (Path ''/repo'')
       [Path ''infra-ai-hub/a/x.tf'', Path ''infra-ai-hub/a/y.tf'', Path ''infra-ai-hub/a/x.tf''])
     (parent (joinpath (Path ''/repo'') (Path ''infra-ai-hub/a/x.tf''))) = 1"
proof -
  let ?R = "Path ''/repo''" and ?F = "plain {Path ''infra-ai-hub/a/x.tf'', Path ''infra-ai-hub/a/y.tf''}"
  let ?A = "[''terraform_lint.py'', ''infra-ai-hub/a/x.tf'', ''infra-ai-hub/a/y.tf'', ''infra-ai-hub/a/x.tf'']"
  let ?X = "Path ''infra-ai-hub/a/x.tf''"
  let ?C = "[Path ''infra-ai-hub/a/x.tf'', Path ''infra-ai-hub/a/y.tf'', Path ''infra-ai-hub/a/x.tf'']"
  have cf: "changed_files_of ?F ?A = Inr ?C" by code_simp
  have v: "valid_path ?X" by (rule valid_Path)
  have q: "is_under_terraform_roots ?F ?X = Inr True" by code_simp
  have k: "count_list (map Path (drop 1 ?A)) ?X = 2" by code_simp
  have ok: "\<forall>e \<in> set (trace (snd (main ?R ?F all_pass ?A (initial 0)))).
      take 1 (command (fst e)) = [''terraform''] \<longrightarrow> snd e = Exited 0"
    by code_simp
  have m: "?X \<in> set ?C" by simp
  from cf v q ok m format_checks_keep_multiplicity [of ?F ?A ?C ?X ?R all_pass 0]
  have "count_list (map fst (trace (snd (main ?R ?F all_pass ?A (initial 0))))) (fmt_invocation ?R ?X)
      = count_list (map Path (drop 1 ?A)) ?X \<and>
    count_list (get_tflint_workdirs ?R ?C) (parent (joinpath ?R ?X)) = 1"
    by blast
  with cf v q k show ?thesis by simp
qed

end
